theory Spec2Isabelle
  imports Complex_Main "HOL-Library.Option_ord"
begin

section \<open>Data model (rewriter/corpus/models.py, rewriter/config.py)\<close>

text \<open>
  \<^verbatim>\<open>Article\<close> is the pydantic model of one blog article; its field \<^verbatim>\<open>id\<close> is
  named \<open>id'\<close>. A \<^verbatim>\<open>datetime\<close> is modelled by
  its distance from \<^verbatim>\<open>datetime(1970, 1, 1)\<close> as an integer, which keeps the order of
  naive datetimes; the epoch itself is \<open>0\<close>.
\<close>

record article =
  id' :: "int option"
  wp_id :: int
  title :: string
  slug :: string
  content :: string
  raw_html :: string
  excerpt :: string
  published_at :: "int option"
  categories :: "string list"
  tags :: "string list"
  word_count :: int
  status :: string

text \<open>
  The fields of \<^verbatim>\<open>Settings\<close> that the analysis code reads. The field
  \<^verbatim>\<open>chunk_articles\<close> is named \<open>chunk_articles_cap\<close> here, because the function
  \<^verbatim>\<open>chunk_articles\<close> of sampler.py keeps its name. \<^verbatim>\<open>sample_fraction\<close> is a Python
  float; it is modelled as a rational number.
\<close>

record settings =
  model :: string
  analysis_model :: string
  max_tokens :: int
  temperature :: rat
  sample_fraction :: rat
  chunk_max_tokens :: int
  chunk_articles_cap :: int
  n_clusters :: int

text \<open>Python exceptions that reach the caller, as values.\<close>

datatype error =
    RuntimeError string
  | ValueError string
  | APIStatusError int
  | APIError string
  | IndexError
  | ValidationError
  | JSONDecodeError
  | TypeError
  | RecursionError

section \<open>Chunker (rewriter/analyzer/sampler.py, chunk\_articles)\<close>

definition newline :: char where
  "newline = CHR 0x0A"

text \<open>\<^verbatim>\<open>f"## {article.title}\n\n{article.content}"\<close>\<close>

definition article_text :: "article \<Rightarrow> string" where
  "article_text a = ''## '' @ title a @ [newline, newline] @ content a"

text \<open>
  The body of the \<^verbatim>\<open>for article in articles\<close> loop, with the three loop variables
  \<^verbatim>\<open>chunks\<close>, \<^verbatim>\<open>current_chunk\<close> and \<^verbatim>\<open>current_tokens\<close> passed as state, and the flush
  of the last partial chunk after the loop.
\<close>

fun chunk_loop ::
  "int \<Rightarrow> int \<Rightarrow> (string \<Rightarrow> int) \<Rightarrow> article list \<Rightarrow>
   article list list \<Rightarrow> article list \<Rightarrow> int \<Rightarrow> article list list" where
  "chunk_loop token_budget max_per_chunk token_counter [] chunks current_chunk current_tokens =
     (if current_chunk \<noteq> [] then chunks @ [current_chunk] else chunks)"
| "chunk_loop token_budget max_per_chunk token_counter (a # rest) chunks current_chunk current_tokens =
     (let article_tokens = token_counter (article_text a) in
      if current_chunk \<noteq> []
         \<and> (current_tokens + article_tokens > token_budget
            \<or> int (length current_chunk) \<ge> max_per_chunk)
      then chunk_loop token_budget max_per_chunk token_counter rest
             (chunks @ [current_chunk]) [a] article_tokens
      else chunk_loop token_budget max_per_chunk token_counter rest
             chunks (current_chunk @ [a]) (current_tokens + article_tokens))"

definition chunk_articles ::
  "article list \<Rightarrow> settings \<Rightarrow> (string \<Rightarrow> int) \<Rightarrow> article list list" where
  "chunk_articles articles st token_counter =
     chunk_loop (chunk_max_tokens st) (chunk_articles_cap st) token_counter articles [] [] 0"

text \<open>The combined token estimate of a chunk: what the loop adds up for its articles.\<close>

definition chunk_tokens :: "(string \<Rightarrow> int) \<Rightarrow> article list \<Rightarrow> int" where
  "chunk_tokens token_counter c = sum_list (map (\<lambda>a. token_counter (article_text a)) c)"

definition chunk_ok :: "int \<Rightarrow> int \<Rightarrow> (string \<Rightarrow> int) \<Rightarrow> article list \<Rightarrow> bool" where
  "chunk_ok token_budget max_per_chunk token_counter c \<longleftrightarrow>
     c \<noteq> [] \<and>
     ((chunk_tokens token_counter c \<le> token_budget \<and> int (length c) \<le> max_per_chunk)
      \<or> length c = 1)"

section \<open>Generation service client (rewriter/llm/client.py)\<close>

text \<open>
  A response of \<^verbatim>\<open>messages.create\<close> carries a list of content blocks and a usage record.
  Only a block whose \<^verbatim>\<open>type\<close> is \<^verbatim>\<open>"text"\<close> has a \<^verbatim>\<open>text\<close>.
\<close>

datatype content_block = TextBlock string | OtherBlock string

text \<open>
  The counters of the usage record of a response. A counter that the service left out is
  read as 0 by \<^verbatim>\<open>getattr(usage, name, 0)\<close>, so it is \<open>Some 0\<close> here; a counter that is
  present with the value \<^verbatim>\<open>None\<close> is \<open>None\<close>.
\<close>

record usage =
  input_tokens :: "int option"
  output_tokens :: "int option"
  cache_read_input_tokens :: "int option"
  cache_creation_input_tokens :: "int option"

record response =
  content_blocks :: "content_block list"
  response_usage :: usage

text \<open>
  The \<^verbatim>\<open>retry-after\<close> header of a rate-limit error: absent (or empty, or no response
  object at all), a text that \<^verbatim>\<open>float\<close> reads as a number, or a text that \<^verbatim>\<open>float\<close>
  rejects with \<^verbatim>\<open>ValueError\<close>.
\<close>

datatype retry_after = NoRetryAfter | RetryAfter rat | RetryAfterMalformed string

text \<open>
  What one call of \<^verbatim>\<open>self.client.messages.create(**kwargs)\<close> does: it returns a response or
  raises. \<^verbatim>\<open>anthropic.RateLimitError\<close> is matched by the first \<^verbatim>\<open>except\<close> clause, any other
  \<^verbatim>\<open>anthropic.APIStatusError\<close> (with its status code) by the second, and every other
  exception by none.
\<close>

datatype api_outcome =
    Returns response
  | RaisesRateLimitError retry_after
  | RaisesAPIStatusError int
  | RaisesOther string

type_synonym message = "string \<times> string"

record api_request =
  req_model :: string
  req_max_tokens :: int
  req_temperature :: rat
  req_messages :: "message list"
  req_system :: "string option"

text \<open>
  The service is outside the program. It is modelled as a function that, for the number of
  calls made so far and the request, gives the outcome of the next call.
\<close>

type_synonym service = "nat \<Rightarrow> api_request \<Rightarrow> api_outcome"

text \<open>
  The state that \<^verbatim>\<open>complete\<close> changes: the usage counters of the \<^verbatim>\<open>LLMClient\<close>, the number
  of calls made to the service, and the delays passed to \<^verbatim>\<open>time.sleep\<close>, oldest first.
\<close>

record llm_state =
  total_input_tokens :: int
  total_output_tokens :: int
  total_cache_read_tokens :: int
  total_cache_creation_tokens :: int
  api_calls :: nat
  sleeps :: "rat list"

definition new_llm_state :: llm_state where
  "new_llm_state =
     \<lparr>total_input_tokens = 0, total_output_tokens = 0, total_cache_read_tokens = 0,
      total_cache_creation_tokens = 0, api_calls = 0, sleeps = []\<rparr>"

definition MAX_RETRIES :: nat where
  "MAX_RETRIES = 10"

definition BASE_DELAY :: rat where
  "BASE_DELAY = 2"

definition MAX_DELAY :: rat where
  "MAX_DELAY = 120"

text \<open>
  \<^verbatim>\<open>_track_usage\<close>: four additions, one after the other. Adding \<^verbatim>\<open>None\<close> to a counter raises
  \<^verbatim>\<open>TypeError\<close>; the additions made before it stay.
\<close>

definition track_usage :: "usage \<Rightarrow> llm_state \<Rightarrow> error option \<times> llm_state" where
  "track_usage u st =
     (case input_tokens u of
        None \<Rightarrow> (Some TypeError, st)
      | Some a \<Rightarrow>
          (let st1 = st\<lparr>total_input_tokens := total_input_tokens st + a\<rparr>
           in case output_tokens u of
                None \<Rightarrow> (Some TypeError, st1)
              | Some b \<Rightarrow>
                  (let st2 = st1\<lparr>total_output_tokens := total_output_tokens st1 + b\<rparr>
                   in case cache_read_input_tokens u of
                        None \<Rightarrow> (Some TypeError, st2)
                      | Some c \<Rightarrow>
                          (let st3 = st2\<lparr>total_cache_read_tokens :=
                                            total_cache_read_tokens st2 + c\<rparr>
                           in case cache_creation_input_tokens u of
                                None \<Rightarrow> (Some TypeError, st3)
                              | Some d \<Rightarrow>
                                  (None,
                                   st3\<lparr>total_cache_creation_tokens :=
                                           total_cache_creation_tokens st3 + d\<rparr>)))))"

text \<open>\<^verbatim>\<open>_extract_text\<close>: the text of the first text block, the empty string if there is none.\<close>

fun extract_text_blocks :: "content_block list \<Rightarrow> string" where
  "extract_text_blocks [] = []"
| "extract_text_blocks (TextBlock t # rest) = t"
| "extract_text_blocks (OtherBlock ty # rest) = extract_text_blocks rest"

definition extract_text :: "response \<Rightarrow> string" where
  "extract_text r = extract_text_blocks (content_blocks r)"

definition sleep :: "rat \<Rightarrow> llm_state \<Rightarrow> llm_state" where
  "sleep d st = st\<lparr>sleeps := sleeps st @ [d]\<rparr>"

definition called :: "llm_state \<Rightarrow> llm_state" where
  "called st = st\<lparr>api_calls := Suc (api_calls st)\<rparr>"

definition backoff :: "nat \<Rightarrow> rat" where
  "backoff attempt = min (BASE_DELAY * 2 ^ attempt) MAX_DELAY"

text \<open>
  The loop \<^verbatim>\<open>for attempt in range(MAX_RETRIES)\<close> of \<^verbatim>\<open>complete\<close>, over the attempts that
  are left, and the \<^verbatim>\<open>raise RuntimeError\<close> after it. \<^verbatim>\<open>_track_usage\<close> and \<^verbatim>\<open>float(ra)\<close> run
  inside the \<^verbatim>\<open>try\<close> and its handler; the \<^verbatim>\<open>TypeError\<close> and \<^verbatim>\<open>ValueError\<close> they raise are
  caught by no clause.
\<close>

fun complete_loop ::
  "service \<Rightarrow> api_request \<Rightarrow> nat list \<Rightarrow> llm_state \<Rightarrow> (error + string) \<times> llm_state" where
  "complete_loop svc kwargs [] st = (Inl (RuntimeError ''Failed after 10 retries''), st)"
| "complete_loop svc kwargs (attempt # rest) st =
     (case svc (api_calls st) kwargs of
        Returns r \<Rightarrow>
          (case track_usage (response_usage r) (called st) of
             (Some e, st1) \<Rightarrow> (Inl e, st1)
           | (None, st1) \<Rightarrow> (Inr (extract_text r), st1))
      | RaisesRateLimitError ra \<Rightarrow>
          (case ra of
             NoRetryAfter \<Rightarrow>
               complete_loop svc kwargs rest (sleep (backoff attempt) (called st))
           | RetryAfter h \<Rightarrow>
               complete_loop svc kwargs rest (sleep (max (backoff attempt) h) (called st))
           | RetryAfterMalformed s \<Rightarrow> (Inl (ValueError s), called st))
      | RaisesAPIStatusError status_code \<Rightarrow>
          (if status_code \<ge> 500 \<or> status_code = 529
           then complete_loop svc kwargs rest (sleep (backoff attempt) (called st))
           else (Inl (APIStatusError status_code), called st))
      | RaisesOther e \<Rightarrow> (Inl (APIError e), called st))"

text \<open>Python's \<^verbatim>\<open>a or b\<close> on strings and on optional integers.\<close>

definition str_or :: "string \<Rightarrow> string \<Rightarrow> string" where
  "str_or a b = (if a = [] then b else a)"

definition opt_str_or :: "string option \<Rightarrow> string \<Rightarrow> string" where
  "opt_str_or a b = (case a of None \<Rightarrow> b | Some s \<Rightarrow> str_or s b)"

definition opt_int_or :: "int option \<Rightarrow> int \<Rightarrow> int" where
  "opt_int_or a b = (case a of None \<Rightarrow> b | Some i \<Rightarrow> if i = 0 then b else i)"

text \<open>The \<^verbatim>\<open>kwargs\<close> that \<^verbatim>\<open>complete\<close> builds from its arguments and the settings.\<close>

definition build_kwargs ::
  "settings \<Rightarrow> string \<Rightarrow> message list \<Rightarrow> string option \<Rightarrow> int option \<Rightarrow> rat option \<Rightarrow>
   api_request" where
  "build_kwargs stg sys msgs model_arg max_tokens_arg temperature_arg =
     \<lparr>req_model = opt_str_or model_arg (model stg),
      req_max_tokens = opt_int_or max_tokens_arg (max_tokens stg),
      req_temperature = (case temperature_arg of None \<Rightarrow> temperature stg | Some t \<Rightarrow> t),
      req_messages = msgs,
      req_system = (if sys \<noteq> [] then Some sys else None)\<rparr>"

definition complete ::
  "service \<Rightarrow> settings \<Rightarrow> string \<Rightarrow> message list \<Rightarrow> string option \<Rightarrow> int option \<Rightarrow>
   rat option \<Rightarrow> llm_state \<Rightarrow> (error + string) \<times> llm_state" where
  "complete svc stg sys msgs model_arg max_tokens_arg temperature_arg st =
     complete_loop svc (build_kwargs stg sys msgs model_arg max_tokens_arg temperature_arg)
       [0..<MAX_RETRIES] st"

text \<open>
  The retry policy in the words of the specification: an outcome is retried if it is a
  rate-limit error or a server-side error; the delay before the retry after attempt \<open>i\<close>
  is \<open>min (BASE_DELAY * 2 ^ i) MAX_DELAY\<close>, raised to the retry-after hint of a rate-limit
  error if the hint is larger. \<open>hint_malformed\<close> singles out the rate-limit errors whose
  retry-after header is not a number.
\<close>

fun retryable :: "api_outcome \<Rightarrow> bool" where
  "retryable (Returns r) = False"
| "retryable (RaisesRateLimitError ra) = True"
| "retryable (RaisesAPIStatusError c) = (c \<ge> 500 \<or> c = 529)"
| "retryable (RaisesOther e) = False"

fun hint_malformed :: "api_outcome \<Rightarrow> bool" where
  "hint_malformed (RaisesRateLimitError (RetryAfterMalformed s)) = True"
| "hint_malformed outcome = False"

fun retry_delay :: "nat \<Rightarrow> api_outcome \<Rightarrow> rat" where
  "retry_delay i (RaisesRateLimitError (RetryAfter h)) =
     max (min (BASE_DELAY * 2 ^ i) MAX_DELAY) h"
| "retry_delay i outcome = min (BASE_DELAY * 2 ^ i) MAX_DELAY"

text \<open>The outcomes after which the loop of \<^verbatim>\<open>complete\<close> sleeps and goes on to the next attempt.\<close>

definition retried :: "api_outcome \<Rightarrow> bool" where
  "retried outcome \<longleftrightarrow> retryable outcome \<and> \<not> hint_malformed outcome"

text \<open>
  The state after \<open>k\<close> retried attempts, the first of them numbered \<open>a\<close>: \<open>k\<close> more calls
  were made and \<open>k\<close> more delays were slept.
\<close>

definition after_retries ::
  "service \<Rightarrow> api_request \<Rightarrow> nat \<Rightarrow> nat \<Rightarrow> llm_state \<Rightarrow> llm_state" where
  "after_retries svc kwargs a k st =
     st\<lparr>api_calls := api_calls st + k,
        sleeps := sleeps st
          @ map (\<lambda>i. retry_delay (a + i) (svc (api_calls st + i) kwargs)) [0..<k]\<rparr>"

section \<open>Batch processor (rewriter/llm/batch.py)\<close>

text \<open>
  One entry of \<^verbatim>\<open>messages.batches.results(batch_id)\<close>: the request id and the result, whose
  \<^verbatim>\<open>type\<close> is \<^verbatim>\<open>"succeeded"\<close> (with the message's content blocks) or something else.
\<close>

datatype batch_result = Succeeded "content_block list" | NotSucceeded string

record batch_event =
  event_custom_id :: string
  event_result :: batch_result

text \<open>The inner loop of \<^verbatim>\<open>_collect_results\<close>: \<^verbatim>\<open>text += block.text\<close> for every text block.\<close>

fun collect_text :: "content_block list \<Rightarrow> string \<Rightarrow> string" where
  "collect_text [] text = text"
| "collect_text (TextBlock t # rest) text = collect_text rest (text @ t)"
| "collect_text (OtherBlock ty # rest) text = collect_text rest text"

fun collect_loop :: "batch_event list \<Rightarrow> (string \<rightharpoonup> string) \<Rightarrow> (string \<rightharpoonup> string)" where
  "collect_loop [] results = results"
| "collect_loop (event # rest) results =
     (case event_result event of
        Succeeded blocks \<Rightarrow>
          collect_loop rest (results(event_custom_id event \<mapsto> collect_text blocks []))
      | NotSucceeded ty \<Rightarrow>
          collect_loop rest (results(event_custom_id event \<mapsto> [])))"

definition collect_results :: "batch_event list \<Rightarrow> (string \<rightharpoonup> string)" where
  "collect_results events = collect_loop events Map.empty"

text \<open>The texts of the text blocks of a response, in order.\<close>

fun texts :: "content_block list \<Rightarrow> string list" where
  "texts [] = []"
| "texts (TextBlock t # rest) = t # texts rest"
| "texts (OtherBlock ty # rest) = texts rest"

text \<open>
  The entry that the specification gives to a batch outcome: the text of a succeeded
  outcome, the empty string for a failed one.
\<close>

definition outcome_text :: "batch_result \<Rightarrow> string" where
  "outcome_text r =
     (case r of Succeeded blocks \<Rightarrow> concat (texts blocks) | NotSucceeded ty \<Rightarrow> [])"

text \<open>
  A request of the batch processor is a dict with the keys \<^verbatim>\<open>custom_id\<close> and \<^verbatim>\<open>messages\<close>
  and, optionally, \<^verbatim>\<open>system\<close>.
\<close>

record batch_request =
  custom_id :: string
  system :: "string option"
  messages :: "message list"

text \<open>
  The loop \<^verbatim>\<open>for i, req in enumerate(requests)\<close> of \<^verbatim>\<open>fallback_sequential\<close>. An exception
  of \<^verbatim>\<open>llm.complete\<close> is not caught: it leaves the loop and the function.
\<close>

fun fallback_loop ::
  "service \<Rightarrow> settings \<Rightarrow> string \<Rightarrow> int \<Rightarrow> rat \<Rightarrow> nat \<Rightarrow> nat \<Rightarrow> batch_request list \<Rightarrow>
   (string \<rightharpoonup> string) \<Rightarrow> llm_state \<Rightarrow> (error + (string \<rightharpoonup> string)) \<times> llm_state" where
  "fallback_loop svc stg mdl mt temp n i [] results st = (Inr results, st)"
| "fallback_loop svc stg mdl mt temp n i (req # rest) results st =
     (case complete svc stg (case system req of None \<Rightarrow> [] | Some s \<Rightarrow> s) (messages req)
             (Some mdl) (Some mt) (Some temp) st of
        (Inl e, st') \<Rightarrow> (Inl e, st')
      | (Inr text, st') \<Rightarrow>
          fallback_loop svc stg mdl mt temp n (Suc i) rest
            (results(custom_id req \<mapsto> text))
            (if int i < int n - 1 then sleep 1 st' else st'))"

definition fallback_sequential ::
  "service \<Rightarrow> settings \<Rightarrow> batch_request list \<Rightarrow> string option \<Rightarrow> int option \<Rightarrow> rat option \<Rightarrow>
   (error + (string \<rightharpoonup> string)) \<times> llm_state" where
  "fallback_sequential svc stg requests model_arg max_tokens_arg temperature_arg =
     fallback_loop svc stg
       (opt_str_or model_arg (analysis_model stg))
       (opt_int_or max_tokens_arg (max_tokens stg))
       (case temperature_arg of None \<Rightarrow> 1 / 2 | Some t \<Rightarrow> t)
       (length requests) 0 requests Map.empty new_llm_state"

text \<open>
  The results of the calls of \<^verbatim>\<open>llm.complete\<close> that the loop of \<^verbatim>\<open>fallback_sequential\<close>
  makes, in the order of the calls: the text a call returned or the exception it raised.
  The loop makes no further call after one that raised.
\<close>

primrec completion_results ::
  "service \<Rightarrow> settings \<Rightarrow> string \<Rightarrow> int \<Rightarrow> rat \<Rightarrow> nat \<Rightarrow> nat \<Rightarrow> batch_request list \<Rightarrow>
   llm_state \<Rightarrow> (error + string) list" where
  "completion_results svc stg mdl mt temp n i [] st = []"
| "completion_results svc stg mdl mt temp n i (req # rest) st =
     (case complete svc stg (case system req of None \<Rightarrow> [] | Some s \<Rightarrow> s) (messages req)
             (Some mdl) (Some mt) (Some temp) st of
        (Inl e, st1) \<Rightarrow> [Inl e]
      | (Inr t, st1) \<Rightarrow>
          Inr t # completion_results svc stg mdl mt temp n (Suc i) rest
                    (if int i < int n - 1 then sleep 1 st1 else st1))"

definition fallback_calls ::
  "service \<Rightarrow> settings \<Rightarrow> batch_request list \<Rightarrow> string option \<Rightarrow> int option \<Rightarrow> rat option \<Rightarrow>
   (error + string) list" where
  "fallback_calls svc stg requests model_arg max_tokens_arg temperature_arg =
     completion_results svc stg
       (opt_str_or model_arg (analysis_model stg))
       (opt_int_or max_tokens_arg (max_tokens stg))
       (case temperature_arg of None \<Rightarrow> 1 / 2 | Some t \<Rightarrow> t)
       (length requests) 0 requests new_llm_state"

section \<open>Example data\<close>

definition example_article ::
  "int \<Rightarrow> string \<Rightarrow> string \<Rightarrow> int option \<Rightarrow> string list \<Rightarrow> article" where
  "example_article i t c p cs =
     \<lparr>id' = Some i, wp_id = 0, title = t, slug = [], content = c, raw_html = [],
      excerpt = [], published_at = p, categories = cs, tags = [], word_count = 0,
      status = ''publish''\<rparr>"

definition example_settings :: settings where
  "example_settings =
     \<lparr>model = ''m'', analysis_model = ''am'', max_tokens = 4096, temperature = 7 / 10,
      sample_fraction = 18 / 100, chunk_max_tokens = 20, chunk_articles_cap = 2,
      n_clusters = 25\<rparr>"

definition example_response :: "content_block list \<Rightarrow> response" where
  "example_response blocks =
     \<lparr>content_blocks = blocks,
      response_usage = \<lparr>input_tokens = Some 10, output_tokens = Some 5,
                         cache_read_input_tokens = Some 0,
                         cache_creation_input_tokens = Some 0\<rparr>\<rparr>"

definition example_request :: "string \<Rightarrow> batch_request" where
  "example_request cid =
     \<lparr>custom_id = cid, system = Some ''sys'', messages = [(''user'', ''hello'')]\<rparr>"

definition example_kwargs :: api_request where
  "example_kwargs = build_kwargs example_settings ''sys'' [(''user'', ''hello'')] None None None"

text \<open>A service that answers its first \<open>k\<close> calls with a rate-limit error and then succeeds.\<close>

definition rate_limited_service :: "nat \<Rightarrow> service" where
  "rate_limited_service k n kw =
     (if n < k then RaisesRateLimitError NoRetryAfter
      else Returns (example_response [TextBlock ''ok'']))"

text \<open>
  A service whose first call succeeds and whose later calls fail with status 400, and a
  service that always succeeds.
\<close>

definition failing_service :: service where
  "failing_service n kw =
     (if n = 0 then Returns (example_response [TextBlock ''ok''])
      else RaisesAPIStatusError 400)"

definition succeeding_service :: service where
  "succeeding_service n kw = Returns (example_response [TextBlock ''ok''])"

section \<open>Random numbers\<close>

text \<open>
  \<^verbatim>\<open>random.Random\<close> belongs to Python's standard library, not to the repository. The
  generator is modelled by the stream of numbers it will produce and a position in that
  stream; which stream belongs to which seed is left open. \<^verbatim>\<open>sample\<close> and \<^verbatim>\<open>shuffle\<close> follow
  the library's loops (selection from a shrinking pool, Fisher-Yates exchange).
  \<^verbatim>\<open>random.sample\<close> raises \<^verbatim>\<open>ValueError\<close> when more elements are asked for than the
  population has.
\<close>

record rng =
  stream :: "nat \<Rightarrow> nat"
  pos :: nat

definition randbelow :: "rng \<Rightarrow> nat \<Rightarrow> nat \<times> rng" where
  "randbelow r n = (stream r (pos r) mod n, r\<lparr>pos := Suc (pos r)\<rparr>)"

primrec sample_loop :: "rng \<Rightarrow> 'a list \<Rightarrow> nat \<Rightarrow> 'a list \<times> rng" where
  "sample_loop r pool 0 = ([], r)"
| "sample_loop r pool (Suc k) =
     (let (j, r1) = randbelow r (length pool);
          (picked, r2) = sample_loop r1 (butlast (pool[j := last pool])) k
      in (pool ! j # picked, r2))"

definition rng_sample :: "rng \<Rightarrow> 'a list \<Rightarrow> nat \<Rightarrow> error + ('a list \<times> rng)" where
  "rng_sample r population k =
     (if k > length population
      then Inl (ValueError ''Sample larger than population or is negative'')
      else Inr (sample_loop r population k))"

primrec shuffle_loop :: "rng \<Rightarrow> 'a list \<Rightarrow> nat list \<Rightarrow> 'a list \<times> rng" where
  "shuffle_loop r x [] = (x, r)"
| "shuffle_loop r x (i # rest) =
     (let (j, r1) = randbelow r (i + 1)
      in shuffle_loop r1 (x[i := x ! j, j := x ! i]) rest)"

definition rng_shuffle :: "rng \<Rightarrow> 'a list \<Rightarrow> 'a list \<times> rng" where
  "rng_shuffle r x = shuffle_loop r x (rev [1..<length x])"

section \<open>Stratified sampler (rewriter/analyzer/sampler.py, stratified\_sample)\<close>

text \<open>
  \<^verbatim>\<open>int(x)\<close> truncates towards zero and \<^verbatim>\<open>round(x)\<close> rounds to the nearest integer, a tie
  to the even one. A float is modelled by the rational number that is its value; the
  sample fraction of the settings is a finite float (\<^verbatim>\<open>inf\<close> and \<^verbatim>\<open>nan\<close>, for which \<^verbatim>\<open>int\<close> raises,
  are not values of the model). The
  product \<^verbatim>\<open>len(articles) * settings.sample_fraction\<close> is a floating-point product: its value
  is the exact product rounded to a float, which \<^verbatim>\<open>int\<close> can truncate to a different integer
  than the exact product. The floating-point product is therefore a parameter,
  \<open>float_mul\<close>. The quotient under \<^verbatim>\<open>round\<close> is modelled by its exact value.
\<close>

type_synonym float_product = "rat \<Rightarrow> rat \<Rightarrow> rat"

definition py_int :: "rat \<Rightarrow> int" where
  "py_int x = (if x \<ge> 0 then \<lfloor>x\<rfloor> else \<lceil>x\<rceil>)"

definition py_round :: "rat \<Rightarrow> int" where
  "py_round x =
     (let f = \<lfloor>x\<rfloor>; d = x - of_int f
      in if d < 1 / 2 then f else if d > 1 / 2 then f + 1 else if even f then f else f + 1)"

text \<open>\<^verbatim>\<open>target_n = max(10, int(len(articles) * settings.sample_fraction))\<close>\<close>

definition target_count :: "float_product \<Rightarrow> settings \<Rightarrow> nat \<Rightarrow> nat" where
  "target_count float_mul stg n_total =
     nat (max 10 (py_int (float_mul (of_nat n_total) (sample_fraction stg))))"

text \<open>
  \<^verbatim>\<open>by_category\<close> is a dict of lists; a dict keeps its keys in the order of their first
  insertion, so it is an association list here.
\<close>

definition primary_category :: "article \<Rightarrow> string" where
  "primary_category a = (case categories a of [] \<Rightarrow> ''_uncategorized'' | c # cs \<Rightarrow> c)"

fun by_category_append ::
  "(string \<times> article list) list \<Rightarrow> string \<Rightarrow> article \<Rightarrow> (string \<times> article list) list" where
  "by_category_append [] c a = [(c, [a])]"
| "by_category_append ((c', as) # rest) c a =
     (if c' = c then (c', as @ [a]) # rest else (c', as) # by_category_append rest c a)"

fun group_by_category ::
  "article list \<Rightarrow> (string \<times> article list) list \<Rightarrow> (string \<times> article list) list" where
  "group_by_category [] by_category = by_category"
| "group_by_category (a # rest) by_category =
     group_by_category rest (by_category_append by_category (primary_category a) a)"

text \<open>\<^verbatim>\<open>by_category[cat].sort(key=lambda a: a.published_at or _epoch)\<close>, a stable sort.\<close>

definition sort_by_date :: "article list \<Rightarrow> article list" where
  "sort_by_date as = sort_key (\<lambda>a. case published_at a of None \<Rightarrow> 0 | Some t \<Rightarrow> t) as"

text \<open>\<^verbatim>\<open>xs[start:stop]\<close> for indices that are not negative.\<close>

definition py_slice :: "'a list \<Rightarrow> nat \<Rightarrow> nat \<Rightarrow> 'a list" where
  "py_slice xs start stop = drop start (take stop xs)"

text \<open>
  \<^verbatim>\<open>cat_n = max(1, round(target_n * len(cat_articles) / len(articles)))\<close>, then
  \<^verbatim>\<open>cat_n = min(cat_n, len(cat_articles))\<close>. The value is at least 1, so it is a natural number.
\<close>

definition category_quota :: "nat \<Rightarrow> nat \<Rightarrow> nat \<Rightarrow> nat" where
  "category_quota target_n group_size n_total =
     min (nat (max 1 (py_round (of_nat target_n * of_nat group_size / of_nat n_total)))) group_size"

text \<open>The loop \<^verbatim>\<open>for s in range(n_slices)\<close>, over the slice numbers that are left.\<close>

primrec slice_loop ::
  "rng \<Rightarrow> article list \<Rightarrow> nat \<Rightarrow> nat \<Rightarrow> nat list \<Rightarrow> article list \<Rightarrow> nat \<Rightarrow>
   error + (article list \<times> rng)" where
  "slice_loop r cat_articles n_slices slice_size [] selected remainder = Inr (selected, r)"
| "slice_loop r cat_articles n_slices slice_size (s # rest) selected remainder =
     (let start = s * slice_size;
          stop = (if s < n_slices - 1 then start + slice_size else length cat_articles);
          time_slice = py_slice cat_articles start stop;
          n_from_slice = min (remainder div (n_slices - s)) (length time_slice)
      in case rng_sample r time_slice n_from_slice of
           Inl e \<Rightarrow> Inl e
         | Inr (picked, r1) \<Rightarrow>
             slice_loop r1 cat_articles n_slices slice_size rest (selected @ picked)
               (remainder - n_from_slice))"

text \<open>The body of the loop \<^verbatim>\<open>for cat, cat_articles in by_category.items()\<close>.\<close>

definition category_step ::
  "rng \<Rightarrow> nat \<Rightarrow> nat \<Rightarrow> article list \<Rightarrow> article list \<Rightarrow> error + (article list \<times> rng)" where
  "category_step r target_n n_total cat_articles selected =
     (let cat_n = category_quota target_n (length cat_articles) n_total
      in if cat_n \<ge> length cat_articles then Inr (selected @ cat_articles, r)
         else let n_slices = min cat_n 4;
                  slice_size = length cat_articles div n_slices
              in slice_loop r cat_articles n_slices slice_size [0..<n_slices] selected cat_n)"

fun category_loop ::
  "rng \<Rightarrow> nat \<Rightarrow> nat \<Rightarrow> (string \<times> article list) list \<Rightarrow> article list \<Rightarrow>
   error + (article list \<times> rng)" where
  "category_loop r target_n n_total [] selected = Inr (selected, r)"
| "category_loop r target_n n_total ((c, cat_articles) # rest) selected =
     (case category_step r target_n n_total cat_articles selected of
        Inl e \<Rightarrow> Inl e
      | Inr (selected1, r1) \<Rightarrow> category_loop r1 target_n n_total rest selected1)"

text \<open>The grouped and sorted corpus, and the selection before the adjustment to the target.\<close>

definition categories_sorted :: "article list \<Rightarrow> (string \<times> article list) list" where
  "categories_sorted articles =
     map (\<lambda>(c, as). (c, sort_by_date as)) (group_by_category articles [])"

definition select_by_category ::
  "float_product \<Rightarrow> article list \<Rightarrow> settings \<Rightarrow> rng \<Rightarrow> error + (article list \<times> rng)" where
  "select_by_category float_mul articles stg r =
     category_loop r (target_count float_mul stg (length articles)) (length articles)
       (categories_sorted articles) []"

definition stratified_sample ::
  "float_product \<Rightarrow> article list \<Rightarrow> settings \<Rightarrow> rng \<Rightarrow> error + article list" where
  "stratified_sample float_mul articles stg r =
     (let target_n = target_count float_mul stg (length articles)
      in case select_by_category float_mul articles stg r of
           Inl e \<Rightarrow> Inl e
         | Inr (selected, r1) \<Rightarrow>
             if length selected > target_n
             then (case rng_sample r1 selected target_n of
                     Inl e \<Rightarrow> Inl e
                   | Inr (selected1, r2) \<Rightarrow> Inr (fst (rng_shuffle r2 selected1)))
             else Inr (fst (rng_shuffle r1 selected)))"

text \<open>
  The number of documents that the slice loop takes, in the words of the specification:
  each slice gives the remaining quota divided by the number of slices left, capped at
  the size of the slice.
\<close>

primrec slice_taken :: "nat \<Rightarrow> nat \<Rightarrow> nat \<Rightarrow> nat list \<Rightarrow> nat \<Rightarrow> nat" where
  "slice_taken len n_slices slice_size [] remainder = 0"
| "slice_taken len n_slices slice_size (s # rest) remainder =
     (let start = s * slice_size;
          stop = (if s < n_slices - 1 then start + slice_size else len);
          n = min (remainder div (n_slices - s)) (min stop len - start)
      in n + slice_taken len n_slices slice_size rest (remainder - n))"

definition example_rng :: rng where
  "example_rng = \<lparr>stream = (\<lambda>n. 7 * n + 3), pos = 0\<rparr>"

text \<open>A floating-point product for the examples: one that rounds nothing.\<close>

definition exact_product :: float_product where
  "exact_product x y = x * y"


text \<open>The sum of the quotas of all categories, and the number of grouped articles.\<close>

definition quota_sum :: "nat \<Rightarrow> nat \<Rightarrow> (string \<times> article list) list \<Rightarrow> nat" where
  "quota_sum target_n n_total by_category =
     sum_list (map (\<lambda>(c, xs). category_quota target_n (length xs) n_total) by_category)"


text \<open>
  A category of five articles, for the examples of the sampler.
\<close>

definition example_category :: "article list" where
  "example_category =
     [example_article 1 ''a'' ''x'' (Some 5) [''news''],
      example_article 2 ''b'' ''x'' (Some 4) [''news''],
      example_article 3 ''c'' ''x'' None [''news''],
      example_article 4 ''d'' ''x'' (Some 2) [''news''],
      example_article 5 ''e'' ''x'' (Some 1) [''news'']]"

text \<open>A corpus of 55 articles in three categories of 18, 18 and 19 articles.\<close>

definition undershoot_corpus :: "article list" where
  "undershoot_corpus =
     replicate 18 (example_article 1 ''a'' ''x'' None [''one''])
     @ replicate 18 (example_article 2 ''b'' ''x'' None [''two''])
     @ replicate 19 (example_article 3 ''c'' ''x'' None [''three''])"

section \<open>Example selection (rewriter/analyzer/examples.py, rewriter/corpus/store.py)\<close>

record few_shot_example =
  article_id :: int
  cluster_id :: int
  distance_to_centroid :: rat

text \<open>
  The tables of the SQLite store that the example selector uses: the rows of
  \<^verbatim>\<open>articles\<close> and the rows of \<^verbatim>\<open>examples\<close>.
\<close>

record corpus_store =
  store_articles :: "article list"
  store_examples :: "few_shot_example list"

text \<open>\<^verbatim>\<open>save_examples\<close>: delete all rows of \<^verbatim>\<open>examples\<close>, then insert the given ones.\<close>

definition save_examples :: "corpus_store \<Rightarrow> few_shot_example list \<Rightarrow> corpus_store" where
  "save_examples store examples = store\<lparr>store_examples := examples\<rparr>"

text \<open>\<^verbatim>\<open>SELECT article_id FROM examples ORDER BY cluster_id\<close>\<close>

definition get_example_article_ids :: "corpus_store \<Rightarrow> int list" where
  "get_example_article_ids store = map article_id (sort_key cluster_id (store_examples store))"

text \<open>
  \<^verbatim>\<open>get_articles_by_ids\<close>: nothing for an empty list of ids, otherwise
  \<^verbatim>\<open>SELECT * FROM articles WHERE id IN (...) ORDER BY id\<close>.
\<close>

definition get_articles_by_ids :: "corpus_store \<Rightarrow> int option list \<Rightarrow> article list" where
  "get_articles_by_ids store ids =
     (if ids = [] then []
      else sort_key id'
             (filter (\<lambda>a. id' a \<noteq> None \<and> id' a \<in> set ids) (store_articles store)))"

text \<open>
  scikit-learn and numpy are outside the repository. What \<^verbatim>\<open>TfidfVectorizer\<close>, \<^verbatim>\<open>KMeans\<close> and
  \<^verbatim>\<open>cosine_similarity\<close> compute for a list of texts and a number of clusters is taken as
  given: the cluster label of every text, the cosine similarity of the vector of text
  \<open>i\<close> to the centroid of cluster \<open>c\<close>, and the cosine similarity of a projected query
  text to the vector of text \<open>i\<close>. Similarities are floating-point numbers in the source
  and rational numbers here; the rounding of \<^verbatim>\<open>1 - similarity\<close> is not modelled.
\<close>

record fitted_model =
  labels :: "nat list"
  centroid_similarity :: "nat \<Rightarrow> nat \<Rightarrow> rat"
  query_similarity :: "string \<Rightarrow> nat \<Rightarrow> rat"

type_synonym clusterer = "string list \<Rightarrow> int \<Rightarrow> error + fitted_model"

text \<open>The state of the \<^verbatim>\<open>ExampleSelector\<close> after a model was built or loaded.\<close>

record tfidf_model =
  model_article_ids :: "int option list"
  model_fitted :: fitted_model

text \<open>\<^verbatim>\<open>np.argmax\<close>: the index of the first largest element.\<close>

primrec argmax_loop :: "rat list \<Rightarrow> nat \<Rightarrow> nat \<Rightarrow> rat \<Rightarrow> nat" where
  "argmax_loop [] i best best_value = best"
| "argmax_loop (x # xs) i best best_value =
     (if x > best_value then argmax_loop xs (Suc i) i x
      else argmax_loop xs (Suc i) best best_value)"

definition argmax :: "rat list \<Rightarrow> nat" where
  "argmax xs = (case xs of [] \<Rightarrow> 0 | x # rest \<Rightarrow> argmax_loop rest 1 0 x)"

text \<open>
  The loop \<^verbatim>\<open>for cluster_id in range(n_clusters)\<close> of \<^verbatim>\<open>build_clusters\<close>. Reading
  \<^verbatim>\<open>self._article_ids[best_idx]\<close> out of range raises \<^verbatim>\<open>IndexError\<close>, and
  \<^verbatim>\<open>FewShotExample\<close> rejects an \<^verbatim>\<open>article_id\<close> that is \<^verbatim>\<open>None\<close>.
\<close>

primrec select_loop ::
  "nat list \<Rightarrow> fitted_model \<Rightarrow> int option list \<Rightarrow> few_shot_example list \<Rightarrow>
   error + few_shot_example list" where
  "select_loop [] fm ids examples = Inr examples"
| "select_loop (c # rest) fm ids examples =
     (let indices = filter (\<lambda>i. labels fm ! i = c) [0..<length (labels fm)]
      in if indices = [] then select_loop rest fm ids examples
         else let distances = map (\<lambda>i. centroid_similarity fm i c) indices;
                  best_idx = indices ! argmax distances
              in if best_idx \<ge> length ids then Inl IndexError
                 else case ids ! best_idx of
                        None \<Rightarrow> Inl ValidationError
                      | Some aid \<Rightarrow>
                          select_loop rest fm ids
                            (examples @
                             [\<lparr>article_id = aid, cluster_id = int c,
                               distance_to_centroid = 1 - distances ! argmax distances\<rparr>]))"

definition build_clusters ::
  "clusterer \<Rightarrow> settings \<Rightarrow> corpus_store \<Rightarrow>
   error + (few_shot_example list \<times> corpus_store \<times> tfidf_model)" where
  "build_clusters fit stg store =
     (let articles = store_articles store
      in if articles = [] then Inl (RuntimeError ''No articles in corpus'')
         else let texts_in = map (\<lambda>a. title a @ '' '' @ content a) articles;
                  ids = map id' articles;
                  k = min (n_clusters stg) (int (length articles))
              in case fit texts_in k of
                   Inl e \<Rightarrow> Inl e
                 | Inr fm \<Rightarrow>
                     (case select_loop [0..<nat k] fm ids [] of
                        Inl e \<Rightarrow> Inl e
                      | Inr examples \<Rightarrow>
                          Inr (examples, save_examples store examples,
                               \<lparr>model_article_ids = ids, model_fitted = fm\<rparr>)))"

text \<open>
  \<^verbatim>\<open>np.argsort\<close>: the indices in ascending order of their values. numpy does not fix the
  order of equal values for its default sort; the model keeps them in their original
  order. \<^verbatim>\<open>xs[i:]\<close> is the slice from an index that may be negative.
\<close>

definition argsort :: "rat list \<Rightarrow> nat list" where
  "argsort xs = sort_key (\<lambda>i. xs ! i) [0..<length xs]"

definition py_slice_from :: "'a list \<Rightarrow> int \<Rightarrow> 'a list" where
  "py_slice_from xs i =
     (if i < 0 then drop (nat (max 0 (int (length xs) + i))) xs else drop (nat i) xs)"

text \<open>
  \<^verbatim>\<open>find_similar\<close>. The model is absent when it is neither in memory nor on disk.
\<close>

definition find_similar ::
  "tfidf_model option \<Rightarrow> corpus_store \<Rightarrow> string \<Rightarrow> int \<Rightarrow> error + article list" where
  "find_similar selector store query n =
     (case selector of
        None \<Rightarrow> Inl (RuntimeError ''TF-IDF model not found'')
      | Some m \<Rightarrow>
          let example_ids = get_example_article_ids store
          in if example_ids = [] then Inl (RuntimeError ''No examples selected'')
             else let ids = model_article_ids m;
                      example_indices =
                        filter (\<lambda>i. ids ! i \<in> Some ` set example_ids) [0..<length ids]
                  in if example_indices = []
                     then Inl (RuntimeError ''Example articles not found in TF-IDF model'')
                     else let similarities =
                                map (query_similarity (model_fitted m) query) example_indices;
                              top_n = min n (int (length example_indices));
                              top_idx = rev (py_slice_from (argsort similarities) (- top_n));
                              found = map (\<lambda>i. ids ! (example_indices ! i)) top_idx
                          in Inr (get_articles_by_ids store found))"

text \<open>
  An example represents cluster \<open>c\<close> when it names a member of the cluster whose similarity
  to the centroid is largest among the members, with the distance 1 minus that similarity.
  The clusters that have a member are the non-empty ones.
\<close>

definition representative ::
  "fitted_model \<Rightarrow> int option list \<Rightarrow> nat \<Rightarrow> few_shot_example \<Rightarrow> bool" where
  "representative fm ids c ex \<longleftrightarrow>
     cluster_id ex = int c
     \<and> (\<exists>i<length (labels fm).
          labels fm ! i = c
          \<and> ids ! i = Some (article_id ex)
          \<and> (\<forall>j<length (labels fm).
                labels fm ! j = c \<longrightarrow> centroid_similarity fm j c \<le> centroid_similarity fm i c)
          \<and> distance_to_centroid ex = 1 - centroid_similarity fm i c)"

definition nonempty_clusters :: "fitted_model \<Rightarrow> nat list \<Rightarrow> nat list" where
  "nonempty_clusters fm cs = filter (\<lambda>c. c \<in> set (labels fm)) cs"

text \<open>
  A store of three articles, a fitted model that puts the first and the third article into
  cluster 0 and the second into cluster 1, and the store after the analysis has saved the
  examples (article 3 for cluster 0, article 2 for cluster 1).
\<close>

definition example_fitted :: fitted_model where
  "example_fitted =
     \<lparr>labels = [0, 1, 0],
      centroid_similarity = (\<lambda>i c. if i = 2 then 9 / 10 else 1 / 2),
      query_similarity = (\<lambda>q i. if i = 2 then 9 / 10 else 1 / 10)\<rparr>"

definition example_clusterer :: clusterer where
  "example_clusterer texts_in k = Inr example_fitted"

definition example_store :: corpus_store where
  "example_store =
     \<lparr>store_articles =
        [example_article 1 ''a'' ''x'' None [], example_article 2 ''b'' ''y'' None [],
         example_article 3 ''c'' ''z'' None []],
      store_examples = []\<rparr>"

definition example_store_analyzed :: corpus_store where
  "example_store_analyzed =
     save_examples example_store
       [\<lparr>article_id = 3, cluster_id = 0, distance_to_centroid = 1 / 10\<rparr>,
        \<lparr>article_id = 2, cluster_id = 1, distance_to_centroid = 1 / 2\<rparr>]"

definition example_model :: tfidf_model where
  "example_model = \<lparr>model_article_ids = [Some 1, Some 2, Some 3], model_fitted = example_fitted\<rparr>"

section \<open>Services for the examples of the retry loop\<close>

text \<open>
  A service whose first answer is a rate-limit error with a date in the retry-after header,
  a response whose cache counters are \<^verbatim>\<open>None\<close>, and a service that answers with it after
  one rate-limit error.
\<close>

definition date_hint_service :: service where
  "date_hint_service n kw =
     (if n = 0 then RaisesRateLimitError (RetryAfterMalformed ''Wed, 21 Oct 2015 07:28:00 GMT'')
      else Returns (example_response [TextBlock ''ok'']))"

definition none_counter_response :: response where
  "none_counter_response =
     \<lparr>content_blocks = [TextBlock ''ok''],
      response_usage = \<lparr>input_tokens = Some 10, output_tokens = Some 5,
                         cache_read_input_tokens = None,
                         cache_creation_input_tokens = None\<rparr>\<rparr>"

definition none_counter_service :: service where
  "none_counter_service n kw =
     (if n = 0 then RaisesRateLimitError NoRetryAfter else Returns none_counter_response)"

section \<open>JSON extraction (rewriter/analyzer/style\_extractor.py, \_parse\_json)\<close>

text \<open>
  A Python string is a sequence of Unicode code points; a code point is a natural number
  here. \<open>ustr\<close> gives the code points of a text of ASCII characters.
\<close>

type_synonym pystr = "nat list"


text \<open>
  The value that \<^verbatim>\<open>json.loads\<close> returns. \<^verbatim>\<open>json.loads\<close> itself belongs to Python's standard
  library; it is a parameter of the model: a function from the text to the parsed value or
  to the exception it raises. That is \<^verbatim>\<open>json.JSONDecodeError\<close> for a text that is not a JSON
  document; for a document that is nested too deeply it is \<^verbatim>\<open>RecursionError\<close>, and for a number
  of more digits than the interpreter converts it is \<^verbatim>\<open>ValueError\<close>.
\<close>

datatype json =
    JNull
  | JBool bool
  | JInt int
  | JFloat rat
  | JString pystr
  | JArray "json list"
  | JObject "(pystr \<times> json) list"




























section \<open>Properties of the chunker\<close>

lemma chunk_tokens_snoc:
  "chunk_tokens tc (c @ [a]) = chunk_tokens tc c + tc (article_text a)"
  by (simp add: chunk_tokens_def)

lemma chunk_loop_concat:
  "concat (chunk_loop mt mpc tc as chunks cur toks) = concat chunks @ cur @ as"
  by (induction as arbitrary: chunks cur toks) (simp_all add: Let_def)

lemma chunk_loop_ok:
  assumes "\<forall>c \<in> set chunks. chunk_ok mt mpc tc c"
    and "cur = [] \<or> chunk_ok mt mpc tc cur"
    and "toks = chunk_tokens tc cur"
  shows "\<forall>c \<in> set (chunk_loop mt mpc tc as chunks cur toks). chunk_ok mt mpc tc c"
  using assms
proof (induction as arbitrary: chunks cur toks)
  case Nil
  then show ?case by auto
next
  case (Cons a rest)
  let ?t = "tc (article_text a)"
  show ?case
  proof (cases "cur \<noteq> [] \<and> (toks + ?t > mt \<or> int (length cur) \<ge> mpc)")
    case True
    have single: "chunk_ok mt mpc tc [a]"
      by (simp add: chunk_ok_def)
    have "\<forall>c \<in> set (chunk_loop mt mpc tc rest (chunks @ [cur]) [a] ?t). chunk_ok mt mpc tc c"
    proof (rule Cons.IH)
      show "\<forall>c \<in> set (chunks @ [cur]). chunk_ok mt mpc tc c"
        using Cons.prems True by auto
      show "[a] = [] \<or> chunk_ok mt mpc tc [a]"
        using single by simp
      show "?t = chunk_tokens tc [a]"
        by (simp add: chunk_tokens_def)
    qed
    moreover have "chunk_loop mt mpc tc (a # rest) chunks cur toks
        = chunk_loop mt mpc tc rest (chunks @ [cur]) [a] ?t"
      using True by (simp add: Let_def)
    ultimately show ?thesis by simp
  next
    case False
    have fits: "chunk_ok mt mpc tc (cur @ [a])"
    proof (cases "cur = []")
      case True
      then show ?thesis by (simp add: chunk_ok_def)
    next
      case nonempty: False
      with False have "toks + ?t \<le> mt" and "int (length cur) < mpc"
        by auto
      with Cons.prems(3) show ?thesis
        by (simp add: chunk_ok_def chunk_tokens_snoc)
    qed
    have "\<forall>c \<in> set (chunk_loop mt mpc tc rest chunks (cur @ [a]) (toks + ?t)).
            chunk_ok mt mpc tc c"
    proof (rule Cons.IH)
      show "\<forall>c \<in> set chunks. chunk_ok mt mpc tc c"
        using Cons.prems by simp
      show "cur @ [a] = [] \<or> chunk_ok mt mpc tc (cur @ [a])"
        using fits by simp
      show "toks + ?t = chunk_tokens tc (cur @ [a])"
        using Cons.prems(3) by (simp add: chunk_tokens_snoc)
    qed
    moreover have "chunk_loop mt mpc tc (a # rest) chunks cur toks
        = chunk_loop mt mpc tc rest chunks (cur @ [a]) (toks + ?t)"
      using False by (auto simp add: Let_def)
    ultimately show ?thesis by simp
  qed
qed

text \<open>
  Claim C3. For every document list, token budget, item cap and token-counting function,
  the chunks returned by \<open>chunk_articles\<close> are all non-empty, their concatenation in order
  is the input list, and every chunk either fits the token budget and the item cap or
  consists of exactly one document.
\<close>

theorem chunk_articles_partition:
  "[] \<notin> set (chunk_articles articles st token_counter)
   \<and> concat (chunk_articles articles st token_counter) = articles
   \<and> (\<forall>c \<in> set (chunk_articles articles st token_counter).
        (chunk_tokens token_counter c \<le> chunk_max_tokens st
         \<and> int (length c) \<le> chunk_articles_cap st)
        \<or> length c = 1)"
proof -
  have ok: "\<forall>c \<in> set (chunk_articles articles st token_counter).
              chunk_ok (chunk_max_tokens st) (chunk_articles_cap st) token_counter c"
    unfolding chunk_articles_def
    by (rule chunk_loop_ok) (simp_all add: chunk_tokens_def)
  have "[] \<notin> set (chunk_articles articles st token_counter)"
    using ok by (auto simp: chunk_ok_def)
  moreover have "concat (chunk_articles articles st token_counter) = articles"
    by (simp add: chunk_articles_def chunk_loop_concat)
  moreover have "\<forall>c \<in> set (chunk_articles articles st token_counter).
        (chunk_tokens token_counter c \<le> chunk_max_tokens st
         \<and> int (length c) \<le> chunk_articles_cap st)
        \<or> length c = 1"
    using ok by (auto simp: chunk_ok_def)
  ultimately show ?thesis by blast
qed

theorem chunk_articles_partition_witness:
  "[example_article 1 ''a'' ''xx'' None [], example_article 2 ''b'' ''yy'' None []]
     \<in> set (chunk_articles
         [example_article 1 ''a'' ''xx'' None [], example_article 2 ''b'' ''yy'' None [],
          example_article 3 ''c'' ''zz'' None []]
         example_settings (\<lambda>s. int (length s)))
   \<and> chunk_tokens (\<lambda>s. int (length s))
        [example_article 1 ''a'' ''xx'' None [], example_article 2 ''b'' ''yy'' None []]
       \<le> chunk_max_tokens example_settings
   \<and> concat (chunk_articles
         [example_article 1 ''a'' ''xx'' None [], example_article 2 ''b'' ''yy'' None [],
          example_article 3 ''c'' ''zz'' None []]
         example_settings (\<lambda>s. int (length s)))
       = [example_article 1 ''a'' ''xx'' None [], example_article 2 ''b'' ''yy'' None [],
          example_article 3 ''c'' ''zz'' None []]"
  using chunk_articles_partition
    [of "[example_article 1 ''a'' ''xx'' None [], example_article 2 ''b'' ''yy'' None [],
          example_article 3 ''c'' ''zz'' None []]"
        example_settings "\<lambda>s. int (length s)"]
  by (simp add: chunk_articles_def example_settings_def example_article_def article_text_def
      chunk_tokens_def Let_def)

section \<open>Properties of the service client and the batch processor\<close>

lemma collect_text_acc: "collect_text blocks acc = acc @ concat (texts blocks)"
  by (induction blocks acc rule: collect_text.induct) simp_all

lemma extract_text_blocks_texts:
  "extract_text_blocks blocks = (case texts blocks of [] \<Rightarrow> [] | t # ts \<Rightarrow> t)"
  by (induction blocks rule: extract_text_blocks.induct) simp_all

lemma paths_equal_iff:
  "collect_text blocks [] = extract_text_blocks blocks \<longleftrightarrow> concat (tl (texts blocks)) = []"
  by (cases "texts blocks") (simp_all add: collect_text_acc extract_text_blocks_texts)

lemma dom_collect_loop:
  "dom (collect_loop events results) = dom results \<union> event_custom_id ` set events"
  by (induction events arbitrary: results) (auto split: batch_result.splits)

lemma collect_loop_keeps:
  "k \<notin> event_custom_id ` set events \<Longrightarrow> collect_loop events results k = results k"
  by (induction events arbitrary: results) (auto split: batch_result.splits)

lemma collect_loop_entry:
  "distinct (map event_custom_id events) \<Longrightarrow> e \<in> set events \<Longrightarrow>
   collect_loop events results (event_custom_id e) = Some (outcome_text (event_result e))"
proof (induction events arbitrary: results)
  case Nil
  then show ?case by simp
next
  case (Cons ev rest)
  show ?case
  proof (cases "e = ev")
    case True
    have "event_custom_id ev \<notin> event_custom_id ` set rest"
      using Cons.prems(1) by auto
    then show ?thesis using True
      by (cases "event_result ev")
         (simp_all add: collect_loop_keeps outcome_text_def collect_text_acc)
  next
    case False
    with Cons.prems have "e \<in> set rest" "distinct (map event_custom_id rest)" by auto
    then show ?thesis using Cons.IH
      by (cases "event_result ev") simp_all
  qed
qed

lemma fallback_loop_dom:
  "fst (fallback_loop svc stg mdl mt temp n i reqs results st) = Inr m \<Longrightarrow>
   dom m = dom results \<union> custom_id ` set reqs"
proof (induction reqs arbitrary: i results st)
  case Nil
  then show ?case by auto
next
  case (Cons req rest)
  obtain out st' where c: "complete svc stg (case system req of None \<Rightarrow> [] | Some s \<Rightarrow> s)
      (messages req) (Some mdl) (Some mt) (Some temp) st = (out, st')"
    by (cases "complete svc stg (case system req of None \<Rightarrow> [] | Some s \<Rightarrow> s)
      (messages req) (Some mdl) (Some mt) (Some temp) st")
  show ?case
  proof (cases out)
    case (Inl e)
    with c Cons.prems show ?thesis by simp
  next
    case (Inr t)
    with c Cons.prems have
      "fst (fallback_loop svc stg mdl mt temp n (Suc i) rest (results(custom_id req \<mapsto> t))
              (if int i < int n - 1 then sleep 1 st' else st')) = Inr m"
      by simp
    from Cons.IH[OF this] show ?thesis by auto
  qed
qed

lemma after_retries_0: "after_retries svc kwargs a 0 st = st"
  by (simp add: after_retries_def)

lemma retry_step:
  assumes "retried (svc (api_calls st) kwargs)"
  shows "complete_loop svc kwargs (a # rest) st
         = complete_loop svc kwargs rest
             (sleep (retry_delay a (svc (api_calls st) kwargs)) (called st))"
proof (cases "svc (api_calls st) kwargs")
  case (Returns r)
  with assms show ?thesis by (simp add: retried_def)
next
  case (RaisesRateLimitError ra)
  with assms show ?thesis by (cases ra) (simp_all add: backoff_def retried_def)
next
  case (RaisesAPIStatusError c)
  with assms show ?thesis by (simp add: backoff_def retried_def)
next
  case (RaisesOther e)
  with assms show ?thesis by (simp add: retried_def)
qed

lemma after_retries_Suc:
  "after_retries svc kwargs (Suc a) k (sleep (retry_delay a (svc (api_calls st) kwargs)) (called st))
   = after_retries svc kwargs a (Suc k) st"
proof -
  have "map (\<lambda>i. retry_delay (a + i) (svc (api_calls st + i) kwargs)) [0..<Suc k]
        = retry_delay a (svc (api_calls st) kwargs)
          # map (\<lambda>i. retry_delay (Suc a + i) (svc (Suc (api_calls st) + i) kwargs)) [0..<k]"
    by (simp add: upt_rec[of 0 "Suc k"] map_Suc_upt[symmetric] del: upt_Suc)
  then show ?thesis
    by (simp add: after_retries_def sleep_def called_def del: upt_Suc)
qed

lemma complete_loop_retries:
  assumes "\<forall>i<k. retried (svc (api_calls st + i) kwargs)"
  shows "complete_loop svc kwargs ([a..<a + k] @ rest) st
         = complete_loop svc kwargs rest (after_retries svc kwargs a k st)"
  using assms
proof (induction k arbitrary: a st)
  case 0
  then show ?case by (simp add: after_retries_0)
next
  case (Suc k)
  let ?st1 = "sleep (retry_delay a (svc (api_calls st) kwargs)) (called st)"
  have first: "retried (svc (api_calls st) kwargs)"
    using Suc.prems by (metis add.right_neutral zero_less_Suc)
  have calls1: "api_calls ?st1 = Suc (api_calls st)"
    by (simp add: sleep_def called_def)
  have later: "\<forall>i<k. retried (svc (api_calls ?st1 + i) kwargs)"
  proof (intro allI impI)
    fix i assume "i < k"
    then have "Suc i < Suc k" by simp
    with Suc.prems have "retried (svc (api_calls st + Suc i) kwargs)" by blast
    then show "retried (svc (api_calls ?st1 + i) kwargs)" by (simp add: calls1)
  qed
  have "[a..<a + Suc k] @ rest = a # ([Suc a..<Suc a + k] @ rest)"
    by (simp add: upt_rec[of a "Suc (a + k)"] del: upt_Suc)
  then have "complete_loop svc kwargs ([a..<a + Suc k] @ rest) st
        = complete_loop svc kwargs ([Suc a..<Suc a + k] @ rest) ?st1"
    using retry_step[of svc st kwargs a, OF first] by simp
  also have "\<dots> = complete_loop svc kwargs rest (after_retries svc kwargs (Suc a) k ?st1)"
    by (rule Suc.IH[OF later])
  also have "after_retries svc kwargs (Suc a) k ?st1 = after_retries svc kwargs a (Suc k) st"
    by (rule after_retries_Suc)
  finally show ?case .
qed

lemma attempts_split:
  "k < n \<Longrightarrow> [0..<n] = [0..<0 + k] @ (k # [Suc k..<n])"
  by (metis add_0 less_imp_add_positive upt_add_eq_append upt_rec zero_le)

lemma backoff_le: "min (BASE_DELAY * 2 ^ i) MAX_DELAY \<le> MAX_DELAY"
  by simp

lemma backoff_mono: "i \<le> j \<Longrightarrow> min (BASE_DELAY * 2 ^ i) MAX_DELAY \<le> min (BASE_DELAY * 2 ^ j) MAX_DELAY"
proof -
  assume "i \<le> j"
  then have "(2::rat) ^ i \<le> 2 ^ j" by (simp add: power_increasing)
  then have "BASE_DELAY * 2 ^ i \<le> BASE_DELAY * 2 ^ j" by (simp add: BASE_DELAY_def)
  then show ?thesis by (simp add: min_le_iff_disj)
qed

lemma complete_loop_returns:
  "svc (api_calls st) kwargs = Returns r \<Longrightarrow>
   complete_loop svc kwargs (a # rest) st
   = (case track_usage (response_usage r) (called st) of
        (Some e, st1) \<Rightarrow> (Inl e, st1)
      | (None, st1) \<Rightarrow> (Inr (extract_text r), st1))"
  by simp

lemma MAX_RETRIES_attempts: "[0..<MAX_RETRIES] = 0 # [1..<MAX_RETRIES]"
  by (simp add: MAX_RETRIES_def upt_rec[of 0])

lemma complete_loop_retry_policy:
  "k \<le> MAX_RETRIES \<and> (\<forall>i<k. retried (svc (api_calls st + i) kwargs)) \<longrightarrow>
   (k = MAX_RETRIES \<longrightarrow>
      complete_loop svc kwargs [0..<MAX_RETRIES] st
      = (Inl (RuntimeError ''Failed after 10 retries''), after_retries svc kwargs 0 k st))
   \<and> (k < MAX_RETRIES \<longrightarrow>
      (case svc (api_calls st + k) kwargs of
         Returns r \<Rightarrow>
           complete_loop svc kwargs [0..<MAX_RETRIES] st
           = (case track_usage (response_usage r) (called (after_retries svc kwargs 0 k st)) of
                (Some e, st1) \<Rightarrow> (Inl e, st1)
              | (None, st1) \<Rightarrow> (Inr (extract_text r), st1))
       | RaisesRateLimitError ra \<Rightarrow>
           (case ra of
              RetryAfterMalformed s \<Rightarrow>
                complete_loop svc kwargs [0..<MAX_RETRIES] st
                = (Inl (ValueError s), called (after_retries svc kwargs 0 k st))
            | _ \<Rightarrow> True)
       | RaisesAPIStatusError c \<Rightarrow>
           \<not> (c \<ge> 500 \<or> c = 529) \<longrightarrow>
           complete_loop svc kwargs [0..<MAX_RETRIES] st
           = (Inl (APIStatusError c), called (after_retries svc kwargs 0 k st))
       | RaisesOther e \<Rightarrow>
           complete_loop svc kwargs [0..<MAX_RETRIES] st
           = (Inl (APIError e), called (after_retries svc kwargs 0 k st))))
   \<and> sleeps (after_retries svc kwargs 0 k st)
       = sleeps st @ map (\<lambda>i. retry_delay i (svc (api_calls st + i) kwargs)) [0..<k]
   \<and> api_calls (called (after_retries svc kwargs 0 k st)) = api_calls st + k + 1
   \<and> ((\<forall>i<k. svc (api_calls st + i) kwargs = RaisesRateLimitError NoRetryAfter) \<longrightarrow>
        sorted (map (\<lambda>i. retry_delay i (svc (api_calls st + i) kwargs)) [0..<k])
        \<and> (\<forall>i<k. retry_delay i (svc (api_calls st + i) kwargs) \<le> MAX_DELAY))"
proof (intro impI, elim conjE)
  assume k: "k \<le> MAX_RETRIES" and retr: "\<forall>i<k. retried (svc (api_calls st + i) kwargs)"
  let ?st = "after_retries svc kwargs 0 k st"
  have calls: "api_calls ?st = api_calls st + k"
    by (simp add: after_retries_def)
  have exhausted: "k = MAX_RETRIES \<longrightarrow>
      complete_loop svc kwargs [0..<MAX_RETRIES] st
      = (Inl (RuntimeError ''Failed after 10 retries''), ?st)"
  proof
    assume "k = MAX_RETRIES"
    then have "[0..<MAX_RETRIES] = [0..<0 + k] @ []" by simp
    then have "complete_loop svc kwargs [0..<MAX_RETRIES] st = complete_loop svc kwargs [] ?st"
      using complete_loop_retries[of k svc st kwargs 0 "[]"] retr by simp
    then show "complete_loop svc kwargs [0..<MAX_RETRIES] st
      = (Inl (RuntimeError ''Failed after 10 retries''), ?st)" by simp
  qed
  have step: "k < MAX_RETRIES \<Longrightarrow>
      complete_loop svc kwargs [0..<MAX_RETRIES] st
      = complete_loop svc kwargs (k # [Suc k..<MAX_RETRIES]) ?st"
    using complete_loop_retries[of k svc st kwargs 0 "k # [Suc k..<MAX_RETRIES]"] retr
      attempts_split[of k MAX_RETRIES] by simp
  have last: "k < MAX_RETRIES \<longrightarrow>
      (case svc (api_calls st + k) kwargs of
         Returns r \<Rightarrow>
           complete_loop svc kwargs [0..<MAX_RETRIES] st
           = (case track_usage (response_usage r) (called ?st) of
                (Some e, st1) \<Rightarrow> (Inl e, st1)
              | (None, st1) \<Rightarrow> (Inr (extract_text r), st1))
       | RaisesRateLimitError ra \<Rightarrow>
           (case ra of
              RetryAfterMalformed s \<Rightarrow>
                complete_loop svc kwargs [0..<MAX_RETRIES] st
                = (Inl (ValueError s), called (after_retries svc kwargs 0 k st))
            | _ \<Rightarrow> True)
       | RaisesAPIStatusError c \<Rightarrow>
           \<not> (c \<ge> 500 \<or> c = 529) \<longrightarrow>
           complete_loop svc kwargs [0..<MAX_RETRIES] st
           = (Inl (APIStatusError c), called ?st)
       | RaisesOther e \<Rightarrow>
           complete_loop svc kwargs [0..<MAX_RETRIES] st
           = (Inl (APIError e), called ?st))"
  proof
    assume "k < MAX_RETRIES"
    note s = step[OF this]
    show "(case svc (api_calls st + k) kwargs of
         Returns r \<Rightarrow>
           complete_loop svc kwargs [0..<MAX_RETRIES] st
           = (case track_usage (response_usage r) (called ?st) of
                (Some e, st1) \<Rightarrow> (Inl e, st1)
              | (None, st1) \<Rightarrow> (Inr (extract_text r), st1))
       | RaisesRateLimitError ra \<Rightarrow>
           (case ra of
              RetryAfterMalformed s \<Rightarrow>
                complete_loop svc kwargs [0..<MAX_RETRIES] st
                = (Inl (ValueError s), called (after_retries svc kwargs 0 k st))
            | _ \<Rightarrow> True)
       | RaisesAPIStatusError c \<Rightarrow>
           \<not> (c \<ge> 500 \<or> c = 529) \<longrightarrow>
           complete_loop svc kwargs [0..<MAX_RETRIES] st
           = (Inl (APIStatusError c), called ?st)
       | RaisesOther e \<Rightarrow>
           complete_loop svc kwargs [0..<MAX_RETRIES] st
           = (Inl (APIError e), called ?st))"
      by (cases "svc (api_calls st + k) kwargs")
         (simp_all add: s calls split: retry_after.splits)
  qed
  have sl: "sleeps ?st
       = sleeps st @ map (\<lambda>i. retry_delay i (svc (api_calls st + i) kwargs)) [0..<k]"
    by (simp add: after_retries_def)
  have cl: "api_calls (called ?st) = api_calls st + k + 1"
    by (simp add: called_def calls)
  have mono: "(\<forall>i<k. svc (api_calls st + i) kwargs = RaisesRateLimitError NoRetryAfter) \<longrightarrow>
        sorted (map (\<lambda>i. retry_delay i (svc (api_calls st + i) kwargs)) [0..<k])
        \<and> (\<forall>i<k. retry_delay i (svc (api_calls st + i) kwargs) \<le> MAX_DELAY)"
  proof
    assume rl: "\<forall>i<k. svc (api_calls st + i) kwargs = RaisesRateLimitError NoRetryAfter"
    have eq: "map (\<lambda>i. retry_delay i (svc (api_calls st + i) kwargs)) [0..<k]
          = map (\<lambda>i. min (BASE_DELAY * 2 ^ i) MAX_DELAY) [0..<k]"
      using rl by simp
    have srt: "sorted (map (\<lambda>i. min (BASE_DELAY * 2 ^ i) MAX_DELAY) [0..<k])"
      unfolding sorted_iff_nth_mono
    proof (intro allI impI)
      fix i j assume "i \<le> j" and "j < length (map (\<lambda>i. min (BASE_DELAY * 2 ^ i) MAX_DELAY) [0..<k])"
      then have "i < k" "j < k" by simp_all
      then show "map (\<lambda>i. min (BASE_DELAY * 2 ^ i) MAX_DELAY) [0..<k] ! i
            \<le> map (\<lambda>i. min (BASE_DELAY * 2 ^ i) MAX_DELAY) [0..<k] ! j"
        using backoff_mono[OF \<open>i \<le> j\<close>] by simp
    qed
    have bnd: "\<forall>i<k. retry_delay i (svc (api_calls st + i) kwargs) \<le> MAX_DELAY"
      using rl by simp
    from srt bnd show "sorted (map (\<lambda>i. retry_delay i (svc (api_calls st + i) kwargs)) [0..<k])
        \<and> (\<forall>i<k. retry_delay i (svc (api_calls st + i) kwargs) \<le> MAX_DELAY)"
      by (simp only: eq simp_thms)
  qed
  from exhausted last sl cl mono
  show "(k = MAX_RETRIES \<longrightarrow>
      complete_loop svc kwargs [0..<MAX_RETRIES] st
      = (Inl (RuntimeError ''Failed after 10 retries''), after_retries svc kwargs 0 k st))
   \<and> (k < MAX_RETRIES \<longrightarrow>
      (case svc (api_calls st + k) kwargs of
         Returns r \<Rightarrow>
           complete_loop svc kwargs [0..<MAX_RETRIES] st
           = (case track_usage (response_usage r) (called (after_retries svc kwargs 0 k st)) of
                (Some e, st1) \<Rightarrow> (Inl e, st1)
              | (None, st1) \<Rightarrow> (Inr (extract_text r), st1))
       | RaisesRateLimitError ra \<Rightarrow>
           (case ra of
              RetryAfterMalformed s \<Rightarrow>
                complete_loop svc kwargs [0..<MAX_RETRIES] st
                = (Inl (ValueError s), called (after_retries svc kwargs 0 k st))
            | _ \<Rightarrow> True)
       | RaisesAPIStatusError c \<Rightarrow>
           \<not> (c \<ge> 500 \<or> c = 529) \<longrightarrow>
           complete_loop svc kwargs [0..<MAX_RETRIES] st
           = (Inl (APIStatusError c), called (after_retries svc kwargs 0 k st))
       | RaisesOther e \<Rightarrow>
           complete_loop svc kwargs [0..<MAX_RETRIES] st
           = (Inl (APIError e), called (after_retries svc kwargs 0 k st))))
   \<and> sleeps (after_retries svc kwargs 0 k st)
       = sleeps st @ map (\<lambda>i. retry_delay i (svc (api_calls st + i) kwargs)) [0..<k]
   \<and> api_calls (called (after_retries svc kwargs 0 k st)) = api_calls st + k + 1
   \<and> ((\<forall>i<k. svc (api_calls st + i) kwargs = RaisesRateLimitError NoRetryAfter) \<longrightarrow>
        sorted (map (\<lambda>i. retry_delay i (svc (api_calls st + i) kwargs)) [0..<k])
        \<and> (\<forall>i<k. retry_delay i (svc (api_calls st + i) kwargs) \<le> MAX_DELAY))"
    by blast
qed

text \<open>
  What the loop of \<open>complete\<close> does when its first \<open>k\<close> attempts end in a rate-limit error
  or a server-side error (status at least 500, or 529) and none of them carries a
  retry-after header that is not a number: attempt \<open>i\<close> is followed by a sleep of
  \<open>min (BASE_DELAY * 2 ^ i) MAX_DELAY\<close> seconds, raised to the retry-after hint of a
  rate-limit error when the hint is larger; if \<open>k\<close> is the maximum number of attempts the
  call fails with the fatal \<open>RuntimeError\<close>; otherwise the outcome of attempt \<open>k\<close> decides:
  a response gives the result after \<open>k + 1\<close> calls unless the usage accounting raises, any
  other error is raised at once without a further sleep. When the \<open>k\<close> attempts are
  rate-limit errors without hints, the delays are non-decreasing and at most \<open>MAX_DELAY\<close>.
\<close>

theorem complete_retry_policy:
  "kwargs = build_kwargs stg sys msgs model_arg max_tokens_arg temperature_arg
   \<and> k \<le> MAX_RETRIES
   \<and> (\<forall>i<k. retryable (svc (api_calls st + i) kwargs)
              \<and> \<not> hint_malformed (svc (api_calls st + i) kwargs)) \<longrightarrow>
   (k = MAX_RETRIES \<longrightarrow>
      complete svc stg sys msgs model_arg max_tokens_arg temperature_arg st
      = (Inl (RuntimeError ''Failed after 10 retries''), after_retries svc kwargs 0 k st))
   \<and> (k < MAX_RETRIES \<longrightarrow>
      (case svc (api_calls st + k) kwargs of
         Returns r \<Rightarrow>
           complete svc stg sys msgs model_arg max_tokens_arg temperature_arg st
           = (case track_usage (response_usage r) (called (after_retries svc kwargs 0 k st)) of
                (Some e, st1) \<Rightarrow> (Inl e, st1)
              | (None, st1) \<Rightarrow> (Inr (extract_text r), st1))
       | RaisesRateLimitError ra \<Rightarrow>
           (case ra of
              RetryAfterMalformed s \<Rightarrow>
                complete svc stg sys msgs model_arg max_tokens_arg temperature_arg st
                = (Inl (ValueError s), called (after_retries svc kwargs 0 k st))
            | _ \<Rightarrow> True)
       | RaisesAPIStatusError c \<Rightarrow>
           \<not> (c \<ge> 500 \<or> c = 529) \<longrightarrow>
           complete svc stg sys msgs model_arg max_tokens_arg temperature_arg st
           = (Inl (APIStatusError c), called (after_retries svc kwargs 0 k st))
       | RaisesOther e \<Rightarrow>
           complete svc stg sys msgs model_arg max_tokens_arg temperature_arg st
           = (Inl (APIError e), called (after_retries svc kwargs 0 k st))))
   \<and> sleeps (after_retries svc kwargs 0 k st)
       = sleeps st @ map (\<lambda>i. retry_delay i (svc (api_calls st + i) kwargs)) [0..<k]
   \<and> api_calls (called (after_retries svc kwargs 0 k st)) = api_calls st + k + 1
   \<and> ((\<forall>i<k. svc (api_calls st + i) kwargs = RaisesRateLimitError NoRetryAfter) \<longrightarrow>
        sorted (map (\<lambda>i. retry_delay i (svc (api_calls st + i) kwargs)) [0..<k])
        \<and> (\<forall>i<k. retry_delay i (svc (api_calls st + i) kwargs) \<le> MAX_DELAY))"
proof (intro impI, elim conjE)
  assume kw: "kwargs = build_kwargs stg sys msgs model_arg max_tokens_arg temperature_arg"
    and k: "k \<le> MAX_RETRIES"
    and r: "\<forall>i<k. retryable (svc (api_calls st + i) kwargs)
              \<and> \<not> hint_malformed (svc (api_calls st + i) kwargs)"
  have r1: "\<forall>i<k. retried (svc (api_calls st + i) kwargs)"
    using r by (simp add: retried_def)
  have c: "complete svc stg sys msgs model_arg max_tokens_arg temperature_arg st
      = complete_loop svc kwargs [0..<MAX_RETRIES] st"
    by (simp only: complete_def kw)
  have p: "k \<le> MAX_RETRIES \<and> (\<forall>i<k. retried (svc (api_calls st + i) kwargs))"
    using k r1 by simp
  from mp[OF complete_loop_retry_policy[of k svc st kwargs] p]
  show "(k = MAX_RETRIES \<longrightarrow>
      complete svc stg sys msgs model_arg max_tokens_arg temperature_arg st
      = (Inl (RuntimeError ''Failed after 10 retries''), after_retries svc kwargs 0 k st))
   \<and> (k < MAX_RETRIES \<longrightarrow>
      (case svc (api_calls st + k) kwargs of
         Returns r \<Rightarrow>
           complete svc stg sys msgs model_arg max_tokens_arg temperature_arg st
           = (case track_usage (response_usage r) (called (after_retries svc kwargs 0 k st)) of
                (Some e, st1) \<Rightarrow> (Inl e, st1)
              | (None, st1) \<Rightarrow> (Inr (extract_text r), st1))
       | RaisesRateLimitError ra \<Rightarrow>
           (case ra of
              RetryAfterMalformed s \<Rightarrow>
                complete svc stg sys msgs model_arg max_tokens_arg temperature_arg st
                = (Inl (ValueError s), called (after_retries svc kwargs 0 k st))
            | _ \<Rightarrow> True)
       | RaisesAPIStatusError c \<Rightarrow>
           \<not> (c \<ge> 500 \<or> c = 529) \<longrightarrow>
           complete svc stg sys msgs model_arg max_tokens_arg temperature_arg st
           = (Inl (APIStatusError c), called (after_retries svc kwargs 0 k st))
       | RaisesOther e \<Rightarrow>
           complete svc stg sys msgs model_arg max_tokens_arg temperature_arg st
           = (Inl (APIError e), called (after_retries svc kwargs 0 k st))))
   \<and> sleeps (after_retries svc kwargs 0 k st)
       = sleeps st @ map (\<lambda>i. retry_delay i (svc (api_calls st + i) kwargs)) [0..<k]
   \<and> api_calls (called (after_retries svc kwargs 0 k st)) = api_calls st + k + 1
   \<and> ((\<forall>i<k. svc (api_calls st + i) kwargs = RaisesRateLimitError NoRetryAfter) \<longrightarrow>
        sorted (map (\<lambda>i. retry_delay i (svc (api_calls st + i) kwargs)) [0..<k])
        \<and> (\<forall>i<k. retry_delay i (svc (api_calls st + i) kwargs) \<le> MAX_DELAY))"
    unfolding c .
qed

theorem complete_retry_policy_witness:
  "complete (rate_limited_service 3) example_settings ''sys'' [(''user'', ''hello'')]
     None None None new_llm_state
   = (Inr ''ok'',
      snd (track_usage (response_usage (example_response [TextBlock ''ok'']))
             (called (after_retries (rate_limited_service 3) example_kwargs 0 3
                        new_llm_state))))
   \<and> sleeps (after_retries (rate_limited_service 3) example_kwargs 0 3 new_llm_state)
       = [2, 4, 8]
   \<and> sorted [2, 4, 8 :: rat]"
proof -
  have h: "example_kwargs
      = build_kwargs example_settings ''sys'' [(''user'', ''hello'')] None None None
    \<and> 3 \<le> MAX_RETRIES
    \<and> (\<forall>i<3. retryable (rate_limited_service 3 (api_calls new_llm_state + i) example_kwargs)
            \<and> \<not> hint_malformed
                  (rate_limited_service 3 (api_calls new_llm_state + i) example_kwargs))"
    by (simp add: example_kwargs_def MAX_RETRIES_def rate_limited_service_def
        new_llm_state_def)
  have lt: "(3::nat) < MAX_RETRIES" by (simp add: MAX_RETRIES_def)
  have up: "[0..<3] = [0, 1, 2]" by (simp add: upt_rec)
  from complete_retry_policy[of example_kwargs example_settings "''sys''"
      "[(''user'', ''hello'')]" None None None 3 "rate_limited_service 3" new_llm_state] h lt
  show ?thesis
    by (simp add: rate_limited_service_def new_llm_state_def extract_text_def
        example_response_def up BASE_DELAY_def MAX_DELAY_def track_usage_def called_def
        after_retries_def)
qed

lemma attempts_list: "[0..<MAX_RETRIES] = [0, 1, 2, 3, 4, 5, 6, 7, 8, 9]"
  by (simp add: MAX_RETRIES_def upt_rec)

text \<open>
  Claim C2 on the code. A rate-limit error whose retry-after header is a date is not
  retried: \<^verbatim>\<open>float(ra)\<close> raises \<^verbatim>\<open>ValueError\<close> inside the handler, before any sleep, and
  the call ends after one attempt. A response whose cache counters are \<^verbatim>\<open>None\<close> makes
  \<^verbatim>\<open>_track_usage\<close> raise \<^verbatim>\<open>TypeError\<close>: the call made after one rate-limit error and one
  sleep has its response and still does not succeed.
\<close>

theorem complete_raises_instead_of_retrying:
  "complete date_hint_service example_settings ''sys'' [(''user'', ''hello'')]
     None None None new_llm_state
   = (Inl (ValueError ''Wed, 21 Oct 2015 07:28:00 GMT''), new_llm_state\<lparr>api_calls := 1\<rparr>)
   \<and> sleeps (new_llm_state\<lparr>api_calls := 1\<rparr>) = []
   \<and> complete none_counter_service example_settings ''sys'' [(''user'', ''hello'')]
       None None None new_llm_state
     = (Inl TypeError,
        new_llm_state\<lparr>total_input_tokens := 10, total_output_tokens := 5, api_calls := 2,
                        sleeps := [2]\<rparr>)"
  by (simp add: complete_def attempts_list date_hint_service_def none_counter_service_def
      none_counter_response_def new_llm_state_def called_def sleep_def track_usage_def
      backoff_def BASE_DELAY_def MAX_DELAY_def Let_def)

lemma fallback_step_returned:
  assumes "complete svc stg (case system req of None \<Rightarrow> [] | Some s \<Rightarrow> s)
      (messages req) (Some mdl) (Some mt) (Some temp) st = (Inr t, st1)"
    and "st2 = (if int i < int n - 1 then sleep 1 st1 else st1)"
  shows "fallback_loop svc stg mdl mt temp n i (req # rest) results st
         = fallback_loop svc stg mdl mt temp n (Suc i) rest (results(custom_id req \<mapsto> t)) st2"
    and "completion_results svc stg mdl mt temp n i (req # rest) st
         = Inr t # completion_results svc stg mdl mt temp n (Suc i) rest st2"
  using assms by simp_all

lemma fallback_step_raised:
  assumes "complete svc stg (case system req of None \<Rightarrow> [] | Some s \<Rightarrow> s)
      (messages req) (Some mdl) (Some mt) (Some temp) st = (Inl e, st1)"
  shows "fallback_loop svc stg mdl mt temp n i (req # rest) results st = (Inl e, st1)"
    and "completion_results svc stg mdl mt temp n i (req # rest) st = [Inl e]"
  using assms by simp_all

lemma fallback_loop_all_returned:
  assumes "\<forall>e. Inl e \<notin> set (completion_results svc stg mdl mt temp n i reqs st)"
  shows "(\<exists>m. fst (fallback_loop svc stg mdl mt temp n i reqs results st) = Inr m)
       \<and> length (completion_results svc stg mdl mt temp n i reqs st) = length reqs"
  using assms
proof (induction reqs arbitrary: i results st)
  case Nil
  show ?case by simp
next
  case (Cons req rest)
  obtain out st1 where c: "complete svc stg (case system req of None \<Rightarrow> [] | Some s \<Rightarrow> s)
      (messages req) (Some mdl) (Some mt) (Some temp) st = (out, st1)"
    by (cases "complete svc stg (case system req of None \<Rightarrow> [] | Some s \<Rightarrow> s)
      (messages req) (Some mdl) (Some mt) (Some temp) st")
  show ?case
  proof (cases out)
    case (Inl e)
    from fallback_step_raised(2)[OF c[unfolded Inl]] Cons.prems show ?thesis by simp
  next
    case (Inr t)
    define st2 where "st2 = (if int i < int n - 1 then sleep 1 st1 else st1)"
    note step = fallback_step_returned[OF c[unfolded Inr] st2_def]
    have "\<forall>e. Inl e \<notin> set (completion_results svc stg mdl mt temp n (Suc i) rest st2)"
      using Cons.prems unfolding step(2) by simp
    from Cons.IH[OF this, of "results(custom_id req \<mapsto> t)"]
    have ih: "\<exists>m. fst (fallback_loop svc stg mdl mt temp n (Suc i) rest
                      (results(custom_id req \<mapsto> t)) st2) = Inr m"
      and len: "length (completion_results svc stg mdl mt temp n (Suc i) rest st2) = length rest"
      by blast+
    have "length (Inr t # completion_results svc stg mdl mt temp n (Suc i) rest st2)
        = length (req # rest)"
      using len by simp
    with ih show ?thesis unfolding step by blast
  qed
qed

lemma fallback_loop_raised:
  assumes "Inl e \<in> set (completion_results svc stg mdl mt temp n i reqs st)"
  shows "fst (fallback_loop svc stg mdl mt temp n i reqs results st) = Inl e"
  using assms
proof (induction reqs arbitrary: i results st)
  case Nil
  then show ?case by simp
next
  case (Cons req rest)
  obtain out st1 where c: "complete svc stg (case system req of None \<Rightarrow> [] | Some s \<Rightarrow> s)
      (messages req) (Some mdl) (Some mt) (Some temp) st = (out, st1)"
    by (cases "complete svc stg (case system req of None \<Rightarrow> [] | Some s \<Rightarrow> s)
      (messages req) (Some mdl) (Some mt) (Some temp) st")
  show ?case
  proof (cases out)
    case (Inl e1)
    note step = fallback_step_raised[OF c[unfolded Inl]]
    from Cons.prems have "e1 = e" unfolding step(2) by simp
    then show ?thesis unfolding step(1) by simp
  next
    case (Inr t)
    define st2 where "st2 = (if int i < int n - 1 then sleep 1 st1 else st1)"
    note step = fallback_step_returned[OF c[unfolded Inr] st2_def]
    have "Inl e \<in> set (completion_results svc stg mdl mt temp n (Suc i) rest st2)"
      using Cons.prems unfolding step(2) by simp
    from Cons.IH[OF this, of "results(custom_id req \<mapsto> t)"]
    show ?thesis unfolding step(1) .
  qed
qed

text \<open>
  The sentence of claim C1 on the sequential fallback fails when a call fails: the first
  request succeeds, the second is answered with status 400 (not retried), and
  \<open>fallback_sequential\<close> raises instead of returning entries.
\<close>

theorem fallback_sequential_counterexample:
  "fst (fallback_sequential failing_service example_settings
          [example_request ''chunk_0'', example_request ''chunk_1''] None None None)
   = Inl (APIStatusError 400)"
  by (simp add: fallback_sequential_def complete_def MAX_RETRIES_attempts failing_service_def
      example_request_def example_response_def new_llm_state_def called_def track_usage_def
      sleep_def Let_def)

text \<open>
  Claim C1, as amended. If every call of \<open>complete\<close> that the loop of \<open>fallback_sequential\<close>
  makes returns (at once or after retries), there is one call for every request and
  \<open>fallback_sequential\<close> returns a result mapping whose keys are exactly the request ids of the
  input; if one of the calls raises, \<open>fallback_sequential\<close> raises that exception and returns
  no mapping; whenever it returns a mapping, the keys are exactly the request ids.
  \<open>collect_results\<close> has an entry for every fetched outcome: its keys are exactly the ids of
  the outcomes, and with distinct ids a succeeded outcome is mapped to its text and a
  failed one to the empty string.
\<close>

theorem result_collection_entries:
  "((\<forall>e. Inl e \<notin> set (fallback_calls svc stg requests model_arg max_tokens_arg temperature_arg))
      \<longrightarrow>
      length (fallback_calls svc stg requests model_arg max_tokens_arg temperature_arg)
        = length requests
      \<and> (\<exists>m. fst (fallback_sequential svc stg requests model_arg max_tokens_arg temperature_arg)
               = Inr m
             \<and> dom m = custom_id ` set requests))
   \<and> (\<forall>e. Inl e \<in> set (fallback_calls svc stg requests model_arg max_tokens_arg temperature_arg)
          \<longrightarrow> fst (fallback_sequential svc stg requests model_arg max_tokens_arg temperature_arg)
               = Inl e)
   \<and> (\<forall>m. fst (fallback_sequential svc stg requests model_arg max_tokens_arg temperature_arg)
             = Inr m
          \<longrightarrow> dom m = custom_id ` set requests)
   \<and> dom (collect_results events) = event_custom_id ` set events
   \<and> (distinct (map event_custom_id events) \<longrightarrow>
        (\<forall>e \<in> set events.
           collect_results events (event_custom_id e) = Some (outcome_text (event_result e))))"
proof -
  have b: "\<forall>m. fst (fallback_sequential svc stg requests model_arg max_tokens_arg temperature_arg)
             = Inr m
          \<longrightarrow> dom m = custom_id ` set requests"
    unfolding fallback_sequential_def using fallback_loop_dom by fastforce
  have a: "(\<forall>e. Inl e \<notin> set (fallback_calls svc stg requests model_arg max_tokens_arg temperature_arg))
      \<longrightarrow>
      length (fallback_calls svc stg requests model_arg max_tokens_arg temperature_arg)
        = length requests
      \<and> (\<exists>m. fst (fallback_sequential svc stg requests model_arg max_tokens_arg temperature_arg)
               = Inr m
             \<and> dom m = custom_id ` set requests)"
  proof
    assume h: "\<forall>e. Inl e \<notin> set (fallback_calls svc stg requests model_arg max_tokens_arg
                                   temperature_arg)"
    from fallback_loop_all_returned[OF h[unfolded fallback_calls_def], of Map.empty]
    have "\<exists>m. fst (fallback_sequential svc stg requests model_arg max_tokens_arg temperature_arg)
               = Inr m"
      and "length (fallback_calls svc stg requests model_arg max_tokens_arg temperature_arg)
        = length requests"
      unfolding fallback_sequential_def fallback_calls_def by blast+
    with b show "length (fallback_calls svc stg requests model_arg max_tokens_arg temperature_arg)
        = length requests
      \<and> (\<exists>m. fst (fallback_sequential svc stg requests model_arg max_tokens_arg temperature_arg)
               = Inr m
             \<and> dom m = custom_id ` set requests)"
      by blast
  qed
  have r: "\<forall>e. Inl e \<in> set (fallback_calls svc stg requests model_arg max_tokens_arg temperature_arg)
          \<longrightarrow> fst (fallback_sequential svc stg requests model_arg max_tokens_arg temperature_arg)
               = Inl e"
    unfolding fallback_sequential_def fallback_calls_def
    by (blast intro: fallback_loop_raised)
  have c: "dom (collect_results events) = event_custom_id ` set events"
    by (simp add: collect_results_def dom_collect_loop)
  have d: "distinct (map event_custom_id events) \<longrightarrow>
        (\<forall>e \<in> set events.
           collect_results events (event_custom_id e) = Some (outcome_text (event_result e)))"
    by (simp add: collect_results_def collect_loop_entry)
  from a r b c d show ?thesis by blast
qed

lemma example_fallback_calls:
  "fallback_calls (rate_limited_service 1) example_settings
     [example_request ''chunk_0'', example_request ''chunk_1''] None None None
   = [Inr ''ok'', Inr ''ok'']"
  "fallback_calls failing_service example_settings
     [example_request ''chunk_0'', example_request ''chunk_1''] None None None
   = [Inr ''ok'', Inl (APIStatusError 400)]"
  by (simp_all add: fallback_calls_def complete_def attempts_list rate_limited_service_def
      failing_service_def example_request_def example_response_def new_llm_state_def
      called_def track_usage_def sleep_def extract_text_def backoff_def BASE_DELAY_def
      MAX_DELAY_def Let_def)

theorem result_collection_entries_witness:
  "(\<exists>m. fst (fallback_sequential (rate_limited_service 1) example_settings
               [example_request ''chunk_0'', example_request ''chunk_1''] None None None)
          = Inr m
        \<and> dom m = {''chunk_0'', ''chunk_1''})
   \<and> fst (fallback_sequential failing_service example_settings
               [example_request ''chunk_0'', example_request ''chunk_1''] None None None)
       = Inl (APIStatusError 400)
   \<and> collect_results
        [\<lparr>event_custom_id = ''chunk_0'', event_result = Succeeded [TextBlock ''ok'']\<rparr>,
         \<lparr>event_custom_id = ''chunk_1'', event_result = NotSucceeded ''errored''\<rparr>]
        ''chunk_1'' = Some []"
proof -
  have h: "\<forall>e. Inl e \<notin> set (fallback_calls (rate_limited_service 1) example_settings
               [example_request ''chunk_0'', example_request ''chunk_1''] None None None)"
    unfolding example_fallback_calls by simp
  have f: "Inl (APIStatusError 400) \<in> set (fallback_calls failing_service example_settings
               [example_request ''chunk_0'', example_request ''chunk_1''] None None None)"
    unfolding example_fallback_calls by simp
  have dist: "distinct (map event_custom_id
        [\<lparr>event_custom_id = ''chunk_0'', event_result = Succeeded [TextBlock ''ok'']\<rparr>,
         \<lparr>event_custom_id = ''chunk_1'', event_result = NotSucceeded ''errored''\<rparr>])"
    by simp
  note t = result_collection_entries[of "rate_limited_service 1" example_settings
      "[example_request ''chunk_0'', example_request ''chunk_1'']" None None None
      "[\<lparr>event_custom_id = ''chunk_0'', event_result = Succeeded [TextBlock ''ok'']\<rparr>,
         \<lparr>event_custom_id = ''chunk_1'', event_result = NotSucceeded ''errored''\<rparr>]"]
  note t2 = result_collection_entries[of failing_service example_settings
      "[example_request ''chunk_0'', example_request ''chunk_1'']" None None None "[]"]
  note t_returned = mp[OF t[THEN conjunct1] h]
  note t_raised = mp[OF spec[OF t2[THEN conjunct2, THEN conjunct1], of "APIStatusError 400"] f]
  note t_collect = mp[OF t[THEN conjunct2, THEN conjunct2, THEN conjunct2, THEN conjunct2] dist]
  from t_returned obtain m where m: "fst (fallback_sequential (rate_limited_service 1)
               example_settings
               [example_request ''chunk_0'', example_request ''chunk_1''] None None None)
          = Inr m"
    and d0: "dom m = custom_id ` set [example_request ''chunk_0'', example_request ''chunk_1'']"
    by blast
  have dm: "dom m = {''chunk_0'', ''chunk_1''}"
    unfolding d0 by (simp add: example_request_def)
  have "collect_results
        [\<lparr>event_custom_id = ''chunk_0'', event_result = Succeeded [TextBlock ''ok'']\<rparr>,
         \<lparr>event_custom_id = ''chunk_1'', event_result = NotSucceeded ''errored''\<rparr>]
        (event_custom_id \<lparr>event_custom_id = ''chunk_1'', event_result = NotSucceeded ''errored''\<rparr>)
       = Some (outcome_text (event_result
           \<lparr>event_custom_id = ''chunk_1'', event_result = NotSucceeded ''errored''\<rparr>))"
    by (rule bspec[OF t_collect]) simp
  then have cl: "collect_results
        [\<lparr>event_custom_id = ''chunk_0'', event_result = Succeeded [TextBlock ''ok'']\<rparr>,
         \<lparr>event_custom_id = ''chunk_1'', event_result = NotSucceeded ''errored''\<rparr>]
        ''chunk_1'' = Some []"
    by (simp add: outcome_text_def)
  from m dm have "\<exists>m. fst (fallback_sequential (rate_limited_service 1) example_settings
               [example_request ''chunk_0'', example_request ''chunk_1''] None None None)
          = Inr m
        \<and> dom m = {''chunk_0'', ''chunk_1''}"
    by blast
  with t_raised cl show ?thesis by (intro conjI)
qed

text \<open>
  The equality of the two paths is not limited to responses with at most one text block,
  as claim C10 states: a response whose text blocks are the text a and the empty text has
  two text blocks, and both paths return the text a.
\<close>

theorem text_paths_counterexample:
  "length (texts [TextBlock ''a'', TextBlock []]) = 2
   \<and> collect_results
        [\<lparr>event_custom_id = ''r'', event_result = Succeeded [TextBlock ''a'', TextBlock []]\<rparr>] ''r''
       = Some (extract_text (example_response [TextBlock ''a'', TextBlock []]))"
  by (simp add: collect_results_def extract_text_def example_response_def)

text \<open>
  Claim C10, as amended. For every response, the batch path stores the concatenation of
  all text blocks and the sequential path (\<open>extract_text\<close>) returns the first text block,
  the empty string if there is none. The two are equal exactly when every text block after
  the first is empty; in particular they are equal for a response with at most one text
  block, and they differ for some response with several text blocks.
\<close>

theorem text_paths_compared:
  "collect_results [\<lparr>event_custom_id = cid, event_result = Succeeded (content_blocks r)\<rparr>] cid
     = Some (concat (texts (content_blocks r)))
   \<and> extract_text r = (case texts (content_blocks r) of [] \<Rightarrow> [] | t # ts \<Rightarrow> t)
   \<and> (concat (texts (content_blocks r)) = extract_text r
        \<longleftrightarrow> concat (tl (texts (content_blocks r))) = [])
   \<and> (length (texts (content_blocks r)) \<le> 1 \<longrightarrow>
        concat (texts (content_blocks r)) = extract_text r)
   \<and> (\<exists>r'. length (texts (content_blocks r')) > 1
          \<and> concat (texts (content_blocks r')) \<noteq> extract_text r')"
proof -
  have a: "collect_results
       [\<lparr>event_custom_id = cid, event_result = Succeeded (content_blocks r)\<rparr>] cid
     = Some (concat (texts (content_blocks r)))"
    by (simp add: collect_results_def collect_text_acc)
  have b: "extract_text r = (case texts (content_blocks r) of [] \<Rightarrow> [] | t # ts \<Rightarrow> t)"
    by (simp add: extract_text_def extract_text_blocks_texts)
  have c: "concat (texts (content_blocks r)) = extract_text r
        \<longleftrightarrow> concat (tl (texts (content_blocks r))) = []"
    using paths_equal_iff[of "content_blocks r"]
    by (simp add: extract_text_def collect_text_acc)
  have d: "length (texts (content_blocks r)) \<le> 1 \<longrightarrow>
        concat (texts (content_blocks r)) = extract_text r"
    unfolding c by (cases "texts (content_blocks r)") simp_all
  have "length (texts (content_blocks (example_response [TextBlock ''a'', TextBlock ''b'']))) > 1
     \<and> concat (texts (content_blocks (example_response [TextBlock ''a'', TextBlock ''b''])))
        \<noteq> extract_text (example_response [TextBlock ''a'', TextBlock ''b''])"
    by (simp add: example_response_def extract_text_def)
  then have e: "\<exists>r'. length (texts (content_blocks r')) > 1
          \<and> concat (texts (content_blocks r')) \<noteq> extract_text r'"
    by blast
  from a b c d e show ?thesis by blast
qed

theorem text_paths_compared_witness:
  "length (texts (content_blocks (example_response [OtherBlock ''thinking'', TextBlock ''a'']))) \<le> 1
   \<and> concat (texts (content_blocks (example_response [OtherBlock ''thinking'', TextBlock ''a''])))
       = extract_text (example_response [OtherBlock ''thinking'', TextBlock ''a''])
   \<and> extract_text (example_response [OtherBlock ''thinking'', TextBlock ''a'']) = ''a''"
  using text_paths_compared[of "''r''" "example_response [OtherBlock ''thinking'', TextBlock ''a'']"]
  by (simp add: example_response_def)

section \<open>Properties of the sampler\<close>

lemma length_sample_loop: "length (fst (sample_loop r pool k)) = k"
proof (induction k arbitrary: r pool)
  case 0
  show ?case by simp
next
  case (Suc k)
  obtain j r1 where a: "randbelow r (length pool) = (j, r1)"
    by (cases "randbelow r (length pool)")
  obtain picked r2 where b: "sample_loop r1 (butlast (pool[j := last pool])) k = (picked, r2)"
    by (cases "sample_loop r1 (butlast (pool[j := last pool])) k")
  have "length picked = k"
    using Suc.IH[of r1 "butlast (pool[j := last pool])"] b by simp
  then show ?case using a b by simp
qed

lemma rng_sample_ok:
  "k \<le> length population \<Longrightarrow>
   \<exists>picked r1. rng_sample r population k = Inr (picked, r1) \<and> length picked = k"
  using length_sample_loop[of r population k]
  by (cases "sample_loop r population k") (simp add: rng_sample_def)

lemma length_shuffle_loop: "length (fst (shuffle_loop r x idxs)) = length x"
proof (induction idxs arbitrary: r x)
  case Nil
  show ?case by simp
next
  case (Cons i rest)
  obtain j r1 where a: "randbelow r (i + 1) = (j, r1)"
    by (cases "randbelow r (i + 1)")
  show ?case using a Cons.IH[of r1 "x[i := x ! j, j := x ! i]"] by simp
qed

lemma length_rng_shuffle: "length (fst (rng_shuffle r x)) = length x"
  by (simp add: rng_shuffle_def length_shuffle_loop)

lemma length_py_slice: "length (py_slice xs start stop) = min stop (length xs) - start"
  by (simp add: py_slice_def min.commute)

lemma slice_loop_taken:
  "\<exists>picked r1. slice_loop r xs m ss idxs selected rem = Inr (selected @ picked, r1)
     \<and> length picked = slice_taken (length xs) m ss idxs rem"
proof (induction idxs arbitrary: r selected rem)
  case Nil
  show ?case by simp
next
  case (Cons s rest)
  define start where "start = s * ss"
  define stop where "stop = (if s < m - 1 then start + ss else length xs)"
  define time_slice where "time_slice = py_slice xs start stop"
  define n where "n = min (rem div (m - s)) (length time_slice)"
  have n_le: "n \<le> length time_slice" by (simp add: n_def)
  obtain picked r1 where p: "rng_sample r time_slice n = Inr (picked, r1)" "length picked = n"
    using rng_sample_ok[OF n_le, of r] by blast
  obtain picked' r2 where
    q: "slice_loop r1 xs m ss rest (selected @ picked) (rem - n)
          = Inr ((selected @ picked) @ picked', r2)"
       "length picked' = slice_taken (length xs) m ss rest (rem - n)"
    using Cons.IH[of r1 "selected @ picked" "rem - n"] by blast
  have unfold_loop: "slice_loop r xs m ss (s # rest) selected rem
      = (case rng_sample r time_slice n of
           Inl e \<Rightarrow> Inl e
         | Inr (picked, r1) \<Rightarrow> slice_loop r1 xs m ss rest (selected @ picked) (rem - n))"
    by (simp only: slice_loop.simps Let_def start_def stop_def time_slice_def n_def)
  have unfold_taken: "slice_taken (length xs) m ss (s # rest) rem
      = n + slice_taken (length xs) m ss rest (rem - n)"
    by (simp only: slice_taken.simps Let_def start_def stop_def time_slice_def n_def
        length_py_slice)
  have "slice_loop r xs m ss (s # rest) selected rem = Inr (selected @ (picked @ picked'), r2)"
    unfolding unfold_loop p(1) using q(1) by simp
  moreover have "length (picked @ picked') = slice_taken (length xs) m ss (s # rest) rem"
    unfolding unfold_taken using p(2) q(2) by simp
  ultimately show ?case by blast
qed

lemma quota4_lt:
  fixes q r ss t :: nat
  assumes "r < 4" "q < ss"
  defines "c \<equiv> 4 * q + r"
  defines "n0 \<equiv> min (c div 4) ss"
  defines "n1 \<equiv> min ((c - n0) div 3) ss"
  defines "n2 \<equiv> min ((c - n0 - n1) div 2) ss"
  defines "n3 \<equiv> min (c - n0 - n1 - n2) (ss + t)"
  shows "n0 + (n1 + (n2 + n3)) = c"
proof -
  have c4: "c div 4 = q" using assms(1) by (simp add: c_def)
  have n0: "n0 = q" using assms(2) by (simp add: n0_def c4)
  have r1: "c - n0 = 3 * q + r" by (simp add: n0 c_def)
  consider "r = 0" | "r = 1" | "r = 2" | "r = 3" using assms(1) by linarith
  then show ?thesis
  proof cases
    case 1
    have n1: "n1 = q" using assms(2) unfolding n1_def r1 by (simp add: 1)
    have r2: "c - n0 - n1 = 2 * q" unfolding r1 n1 by (simp add: 1)
    have n2: "n2 = q" using assms(2) unfolding n2_def r2 by simp
    have r3: "c - n0 - n1 - n2 = q" unfolding r2 n2 by simp
    have n3: "n3 = q" using assms(2) unfolding n3_def r3 by simp
    show ?thesis by (simp add: n0 n1 n2 n3 c_def 1)
  next
    case 2
    have n1: "n1 = q" using assms(2) unfolding n1_def r1 by (simp add: 2)
    have r2: "c - n0 - n1 = 2 * q + 1" unfolding r1 n1 by (simp add: 2)
    have n2: "n2 = q" using assms(2) unfolding n2_def r2 by simp
    have r3: "c - n0 - n1 - n2 = q + 1" unfolding r2 n2 by simp
    have n3: "n3 = q + 1" using assms(2) unfolding n3_def r3 by simp
    show ?thesis by (simp add: n0 n1 n2 n3 c_def 2)
  next
    case 3
    have n1: "n1 = q" using assms(2) unfolding n1_def r1 by (simp add: 3)
    have r2: "c - n0 - n1 = 2 * q + 2" unfolding r1 n1 by (simp add: 3)
    have n2: "n2 = q + 1" using assms(2) unfolding n2_def r2 by simp
    have r3: "c - n0 - n1 - n2 = q + 1" unfolding r2 n2 by simp
    have n3: "n3 = q + 1" using assms(2) unfolding n3_def r3 by simp
    show ?thesis by (simp add: n0 n1 n2 n3 c_def 3)
  next
    case 4
    have n1: "n1 = q + 1" using assms(2) unfolding n1_def r1 by (simp add: 4)
    have r2: "c - n0 - n1 = 2 * q + 2" unfolding r1 n1 by (simp add: 4)
    have n2: "n2 = q + 1" using assms(2) unfolding n2_def r2 by simp
    have r3: "c - n0 - n1 - n2 = q + 1" unfolding r2 n2 by simp
    have n3: "n3 = q + 1" using assms(2) unfolding n3_def r3 by simp
    show ?thesis by (simp add: n0 n1 n2 n3 c_def 4)
  qed
qed

lemma quota4_eq:
  fixes q r t :: nat
  assumes "r < t" "t < 4"
  defines "c \<equiv> 4 * q + r"
  defines "n0 \<equiv> min (c div 4) q"
  defines "n1 \<equiv> min ((c - n0) div 3) q"
  defines "n2 \<equiv> min ((c - n0 - n1) div 2) q"
  defines "n3 \<equiv> min (c - n0 - n1 - n2) (q + t)"
  shows "n0 + (n1 + (n2 + n3)) = c"
proof -
  have r4: "r < 4" using assms by simp
  have c4: "c div 4 = q" using r4 by (simp add: c_def)
  have n0: "n0 = q" by (simp add: n0_def c4)
  have r1: "c - n0 = 3 * q + r" by (simp add: n0 c_def)
  have n1: "n1 = q" using r4 unfolding n1_def r1 by simp
  have r2: "c - n0 - n1 = 2 * q + r" unfolding r1 n1 by simp
  have n2: "n2 = q" unfolding n2_def r2 by simp
  have r3: "c - n0 - n1 - n2 = q + r" unfolding r2 n2 by simp
  have n3: "n3 = q + r" using assms(1) unfolding n3_def r3 by simp
  show ?thesis by (simp add: n0 n1 n2 n3 c_def)
qed

lemma upt_4: "[0..<4] = [0, 1, 2, 3]" "[0..<3] = [0, 1, 2]" "[0..<2] = [0, 1]" "[0..<1] = [0]"
  by (simp_all add: upt_rec)

lemma slice_lens_4:
  fixes ss t :: nat
  shows "min (if (0::nat) < 3 then 0 * ss + ss else 4 * ss + t) (4 * ss + t) - 0 * ss = ss"
    and "min (if (1::nat) < 3 then 1 * ss + ss else 4 * ss + t) (4 * ss + t) - 1 * ss = ss"
    and "min (if (2::nat) < 3 then 2 * ss + ss else 4 * ss + t) (4 * ss + t) - 2 * ss = ss"
    and "min (if (3::nat) < 3 then 3 * ss + ss else 4 * ss + t) (4 * ss + t) - 3 * ss = ss + t"
  by simp_all

lemma four_minus: "(4::nat) - 0 = 4" "(4::nat) - 1 = 3" "(4::nat) - 2 = 2" "(4::nat) - 3 = 1"
  by simp_all

lemma slice_taken_4_unfold:
  "slice_taken (4 * ss + t) 4 ss [0..<4] c
   = min (c div 4) ss
     + (min ((c - min (c div 4) ss) div 3) ss
     + (min ((c - min (c div 4) ss - min ((c - min (c div 4) ss) div 3) ss) div 2) ss
     + min (c - min (c div 4) ss - min ((c - min (c div 4) ss) div 3) ss
            - min ((c - min (c div 4) ss - min ((c - min (c div 4) ss) div 3) ss) div 2) ss)
           (ss + t)))"
  by (simp only: upt_4 slice_taken.simps Let_def slice_lens_4 four_minus div_by_1 add_0_right)

lemma slice_taken_4_exact:
  assumes "4 \<le> c" and "c < len"
  shows "slice_taken len 4 (len div 4) [0..<4] c = c"
proof -
  define ss t q r where "ss = len div 4" and "t = len mod 4" and "q = c div 4" and "r = c mod 4"
  have len: "len = 4 * ss + t" and c: "c = 4 * q + r"
    by (simp_all add: ss_def t_def q_def r_def)
  have t4: "t < 4" and r4: "r < 4" by (simp_all add: t_def r_def)
  have "q \<le> ss" unfolding q_def ss_def using assms(2) by (simp add: div_le_mono)
  then consider "q < ss" | "q = ss" by linarith
  then have "slice_taken (4 * ss + t) 4 ss [0..<4] (4 * q + r) = 4 * q + r"
  proof cases
    case 1
    show ?thesis unfolding slice_taken_4_unfold using quota4_lt[OF r4 1, of t] .
  next
    case 2
    have "r < t" using assms(2) 2 unfolding len c by simp
    then show ?thesis unfolding slice_taken_4_unfold 2 using quota4_eq[OF _ t4, of r ss] by simp
  qed
  then show ?thesis unfolding ss_def[symmetric] unfolding len c .
qed

lemma slice_taken_small:
  fixes ss t :: nat
  assumes "1 \<le> ss"
  shows "slice_taken (1 * ss + t) 1 ss [0..<1] 1 = 1"
    and "slice_taken (2 * ss + t) 2 ss [0..<2] 2 = 2"
    and "slice_taken (3 * ss + t) 3 ss [0..<3] 3 = 3"
  using assms by (simp_all add: upt_4 Let_def)

lemma slice_taken_exact:
  assumes "1 \<le> cat_n" and "cat_n < len"
  shows "slice_taken len (min cat_n 4) (len div min cat_n 4) [0..<min cat_n 4] cat_n = cat_n"
proof -
  consider "cat_n = 1" | "cat_n = 2" | "cat_n = 3" | "4 \<le> cat_n"
    using assms(1) by linarith
  then show ?thesis
  proof cases
    case 1
    have "1 \<le> len div 1" using assms(2) 1 by simp
    from slice_taken_small(1)[OF this, of "len mod 1"] show ?thesis by (simp add: 1)
  next
    case 2
    have "1 \<le> len div 2" using assms(2) 2 by simp
    from slice_taken_small(2)[OF this, of "len mod 2"] show ?thesis by (simp add: 2)
  next
    case 3
    have "1 \<le> len div 3" using assms(2) 3 by simp
    from slice_taken_small(3)[OF this, of "len mod 3"] show ?thesis by (simp add: 3)
  next
    case 4
    then have "min cat_n 4 = 4" by simp
    then show ?thesis using slice_taken_4_exact[OF 4 assms(2)] by simp
  qed
qed

lemma category_quota_le: "category_quota target_n group_size n_total \<le> group_size"
  by (simp add: category_quota_def)

lemma category_quota_ge_1: "1 \<le> group_size \<Longrightarrow> 1 \<le> category_quota target_n group_size n_total"
  by (simp add: category_quota_def)

lemma category_step_quota:
  "\<exists>picked r1. category_step r target_n n_total xs selected = Inr (selected @ picked, r1)
     \<and> length picked = category_quota target_n (length xs) n_total"
proof (cases "category_quota target_n (length xs) n_total \<ge> length xs")
  case True
  then have "category_quota target_n (length xs) n_total = length xs"
    using category_quota_le[of target_n "length xs" n_total] by simp
  then show ?thesis by (simp add: category_step_def)
next
  case False
  define cat_n where "cat_n = category_quota target_n (length xs) n_total"
  have lt: "cat_n < length xs" using False by (simp add: cat_n_def)
  then have "1 \<le> cat_n" unfolding cat_n_def by (intro category_quota_ge_1) simp
  note ex = slice_taken_exact[OF this lt]
  have "category_step r target_n n_total xs selected
      = slice_loop r xs (min cat_n 4) (length xs div min cat_n 4) [0..<min cat_n 4] selected cat_n"
    using lt by (simp add: category_step_def cat_n_def Let_def)
  then show ?thesis
    using slice_loop_taken[of r xs "min cat_n 4" "length xs div min cat_n 4" "[0..<min cat_n 4]"
        selected cat_n] ex
    by (simp add: cat_n_def)
qed

lemma category_loop_quota:
  "\<exists>picked r1. category_loop r target_n n_total cats selected = Inr (selected @ picked, r1)
     \<and> length picked = quota_sum target_n n_total cats"
proof (induction cats arbitrary: r selected)
  case Nil
  show ?case by (simp add: quota_sum_def)
next
  case (Cons cx rest)
  obtain c xs where cx: "cx = (c, xs)" by (cases cx)
  obtain picked r1 where p: "category_step r target_n n_total xs selected = Inr (selected @ picked, r1)"
      "length picked = category_quota target_n (length xs) n_total"
    using category_step_quota by blast
  obtain picked' r2 where q: "category_loop r1 target_n n_total rest (selected @ picked)
        = Inr ((selected @ picked) @ picked', r2)"
      "length picked' = quota_sum target_n n_total rest"
    using Cons.IH by blast
  have "category_loop r target_n n_total (cx # rest) selected = Inr (selected @ (picked @ picked'), r2)"
    using p(1) q(1) by (simp add: cx)
  moreover have "length (picked @ picked') = quota_sum target_n n_total (cx # rest)"
    using p(2) q(2) by (simp add: cx quota_sum_def)
  ultimately show ?case by blast
qed









lemma select_by_category_quota:
  "\<exists>picked r1. select_by_category float_mul articles stg r = Inr (picked, r1)
     \<and> length picked
         = quota_sum (target_count float_mul stg (length articles)) (length articles)
             (categories_sorted articles)"
  using category_loop_quota[of r "target_count float_mul stg (length articles)" "length articles"
      "categories_sorted articles" "[]"]
  by (simp add: select_by_category_def)

lemma stratified_sample_size:
  "\<exists>res. stratified_sample float_mul articles stg r = Inr res
     \<and> length res
         = min (quota_sum (target_count float_mul stg (length articles)) (length articles)
                 (categories_sorted articles))
               (target_count float_mul stg (length articles))"
proof -
  define target_n where "target_n = target_count float_mul stg (length articles)"
  obtain selected r1 where s: "select_by_category float_mul articles stg r = Inr (selected, r1)"
    and len: "length selected = quota_sum target_n (length articles) (categories_sorted articles)"
    using select_by_category_quota[of float_mul articles stg r] unfolding target_n_def by blast
  show ?thesis
  proof (cases "length selected > target_n")
    case True
    then have "target_n \<le> length selected" by simp
    then obtain selected1 r2 where p: "rng_sample r1 selected target_n = Inr (selected1, r2)"
      and l1: "length selected1 = target_n"
      using rng_sample_ok[of target_n selected r1] by blast
    have "stratified_sample float_mul articles stg r = Inr (fst (rng_shuffle r2 selected1))"
      using s True p by (simp add: stratified_sample_def target_n_def[symmetric])
    moreover have "length (fst (rng_shuffle r2 selected1)) = target_n"
      by (simp add: length_rng_shuffle l1)
    ultimately show ?thesis using True len unfolding target_n_def[symmetric] by simp
  next
    case False
    have "stratified_sample float_mul articles stg r = Inr (fst (rng_shuffle r1 selected))"
      using s False by (simp add: stratified_sample_def target_n_def[symmetric])
    moreover have "length (fst (rng_shuffle r1 selected)) = length selected"
      by (simp add: length_rng_shuffle)
    ultimately show ?thesis using False len unfolding target_n_def[symmetric] by simp
  qed
qed





lemma quota_sum_lengths:
  "quota_sum target_n n_total cats
   = sum_list (map (\<lambda>l. category_quota target_n l n_total) (map (\<lambda>(c, xs). length xs) cats))"
  by (induction cats) (auto simp: quota_sum_def)






text \<open>
  The adjustment after the category loop handles an overshoot only. A corpus of 55
  articles in groups of 18, 18 and 19 has the target 10 at the sample fraction 0.18, the
  quotas are 3, 3 and 3, and the sample has 9 articles.
\<close>

lemma floor_examples: "\<lfloor>36 / 11 :: rat\<rfloor> = 3" "\<lfloor>38 / 11 :: rat\<rfloor> = 3" "\<lfloor>99 / 10 :: rat\<rfloor> = 9"
  by (simp_all add: floor_eq_iff)

lemma quota_undershoot:
  "target_count exact_product example_settings 55 = 10"
  "category_quota 10 18 55 + category_quota 10 18 55 + category_quota 10 19 55 = 9"
  by (simp_all add: target_count_def exact_product_def py_int_def example_settings_def category_quota_def
      py_round_def Let_def floor_examples)

lemma undershoot_groups:
  "map (\<lambda>(c, xs). length xs) (categories_sorted undershoot_corpus) = [18, 18, 19]"
  by code_simp

lemma undershoot_length: "length undershoot_corpus = 55"
  by (simp add: undershoot_corpus_def)

theorem stratified_sample_undershoot:
  "\<exists>res. stratified_sample exact_product undershoot_corpus example_settings example_rng = Inr res
     \<and> length res = 9 \<and> length undershoot_corpus = 55"
proof -
  have q: "quota_sum (target_count exact_product example_settings (length undershoot_corpus))
             (length undershoot_corpus) (categories_sorted undershoot_corpus) = 9"
    unfolding quota_sum_lengths undershoot_groups undershoot_length quota_undershoot(1)
    using quota_undershoot(2) by simp
  from stratified_sample_size[of exact_product undershoot_corpus example_settings example_rng]
  show ?thesis
    unfolding q by (simp add: undershoot_length quota_undershoot(1))
qed

text \<open>
  Claim C5. For every category whose quota
  \<open>min (max 1 (round (target_n * group_size / corpus_size))) group_size\<close> is smaller than the
  size of its group, the step of the category loop is the time-slice loop and it adds
  exactly that quota of articles to the selection (the caps of the slices cause no
  shortfall); and the selection before the adjustment to the target has as many articles
  as the sum of the quotas of all categories.
\<close>

theorem slice_loop_selects_quota:
  "(category_quota target_n (length cat_articles) n_total < length cat_articles \<longrightarrow>
      (\<exists>picked r1.
         category_step r target_n n_total cat_articles selected
         = slice_loop r cat_articles
             (min (category_quota target_n (length cat_articles) n_total) 4)
             (length cat_articles div min (category_quota target_n (length cat_articles) n_total) 4)
             [0..<min (category_quota target_n (length cat_articles) n_total) 4]
             selected (category_quota target_n (length cat_articles) n_total)
         \<and> category_step r target_n n_total cat_articles selected = Inr (selected @ picked, r1)
         \<and> length picked = category_quota target_n (length cat_articles) n_total))
   \<and> (\<exists>picked r1.
         select_by_category float_mul articles stg r = Inr (picked, r1)
         \<and> length picked
             = sum_list (map (\<lambda>(c, xs). category_quota (target_count float_mul stg (length articles))
                                        (length xs) (length articles))
                          (categories_sorted articles)))"
proof -
  have a: "category_quota target_n (length cat_articles) n_total < length cat_articles \<longrightarrow>
      (\<exists>picked r1.
         category_step r target_n n_total cat_articles selected
         = slice_loop r cat_articles
             (min (category_quota target_n (length cat_articles) n_total) 4)
             (length cat_articles div min (category_quota target_n (length cat_articles) n_total) 4)
             [0..<min (category_quota target_n (length cat_articles) n_total) 4]
             selected (category_quota target_n (length cat_articles) n_total)
         \<and> category_step r target_n n_total cat_articles selected = Inr (selected @ picked, r1)
         \<and> length picked = category_quota target_n (length cat_articles) n_total)"
  proof
    assume lt: "category_quota target_n (length cat_articles) n_total < length cat_articles"
    have eq: "category_step r target_n n_total cat_articles selected
         = slice_loop r cat_articles
             (min (category_quota target_n (length cat_articles) n_total) 4)
             (length cat_articles div min (category_quota target_n (length cat_articles) n_total) 4)
             [0..<min (category_quota target_n (length cat_articles) n_total) 4]
             selected (category_quota target_n (length cat_articles) n_total)"
      using lt by (simp add: category_step_def Let_def)
    from category_step_quota[of r target_n n_total cat_articles selected] eq
    show "\<exists>picked r1.
         category_step r target_n n_total cat_articles selected
         = slice_loop r cat_articles
             (min (category_quota target_n (length cat_articles) n_total) 4)
             (length cat_articles div min (category_quota target_n (length cat_articles) n_total) 4)
             [0..<min (category_quota target_n (length cat_articles) n_total) 4]
             selected (category_quota target_n (length cat_articles) n_total)
         \<and> category_step r target_n n_total cat_articles selected = Inr (selected @ picked, r1)
         \<and> length picked = category_quota target_n (length cat_articles) n_total"
      by blast
  qed
  have b: "\<exists>picked r1.
         select_by_category float_mul articles stg r = Inr (picked, r1)
         \<and> length picked
             = sum_list (map (\<lambda>(c, xs). category_quota (target_count float_mul stg (length articles))
                                        (length xs) (length articles))
                          (categories_sorted articles))"
    using select_by_category_quota[of float_mul articles stg r] by (simp add: quota_sum_def)
  from a b show ?thesis by blast
qed

theorem slice_loop_selects_quota_witness:
  "category_quota 10 (length example_category) 25 = 2
   \<and> (\<exists>picked r1.
         category_step example_rng 10 25 example_category [] = Inr (picked, r1)
         \<and> length picked = 2)"
proof -
  have q: "category_quota 10 (length example_category) 25 = 2"
    by (simp add: category_quota_def py_round_def example_category_def Let_def)
  have l: "length example_category = 5"
    by (simp add: example_category_def)
  have lt: "category_quota 10 (length example_category) 25 < length example_category"
    using q l by simp
  from slice_loop_selects_quota[of 10 example_category 25 example_rng "[]" exact_product "[]"
      example_settings] lt
  obtain picked r1 where
    "category_step example_rng 10 25 example_category [] = Inr ([] @ picked, r1)"
    "length picked = category_quota 10 (length example_category) 25"
    by blast
  then show ?thesis using q by simp

qed

text \<open>
  Claim C9 fails on the code: given no articles, the sampler and the chunker both return
  the empty list; neither raises.
\<close>

theorem empty_input_counterexample:
  "stratified_sample exact_product [] example_settings example_rng = Inr []
   \<and> chunk_articles [] example_settings (\<lambda>s. int (length s)) = []"
  by (simp add: stratified_sample_def select_by_category_def categories_sorted_def
      target_count_def rng_shuffle_def chunk_articles_def)

text \<open>
  Claim C9, as amended. For every setting (its sample fraction a finite number), generator
  and token counter, \<open>stratified_sample\<close> and \<open>chunk_articles\<close> applied to the empty list of
  articles return the empty list and do not raise.
\<close>

theorem empty_input_returns_empty:
  "stratified_sample float_mul [] stg r = Inr [] \<and> chunk_articles [] stg token_counter = []"
  by (simp add: stratified_sample_def select_by_category_def categories_sorted_def
      target_count_def rng_shuffle_def chunk_articles_def)

section \<open>Properties of the example selection\<close>

lemma argmax_loop_props:
  assumes "best < i" and "best_value = ys ! best" and "length ys = i + length xs"
    and "\<forall>j<i. ys ! j \<le> best_value" and "\<forall>j<length xs. ys ! (i + j) = xs ! j"
  shows "argmax_loop xs i best best_value < length ys
       \<and> (\<forall>j<length ys. ys ! j \<le> ys ! argmax_loop xs i best best_value)"
  using assms
proof (induction xs arbitrary: i best best_value)
  case Nil
  then show ?case by simp
next
  case (Cons x xs)
  have xi: "ys ! i = x" using Cons.prems(5) by (metis add.right_neutral length_greater_0_conv list.distinct(1) nth_Cons_0)
  have shift: "\<forall>j<length xs. ys ! (Suc i + j) = xs ! j"
  proof (intro allI impI)
    fix j assume "j < length xs"
    then have "Suc j < length (x # xs)" by simp
    then have "ys ! (i + Suc j) = (x # xs) ! Suc j" using Cons.prems(5) by blast
    then show "ys ! (Suc i + j) = xs ! j" by simp
  qed
  have len: "length ys = Suc i + length xs" using Cons.prems(3) by simp
  show ?case
  proof (cases "x > best_value")
    case True
    have "\<forall>j<Suc i. ys ! j \<le> x"
      using Cons.prems(4) True xi by (metis less_Suc_eq less_eq_rat_def order_trans)
    from Cons.IH[of i "Suc i" x, OF _ _ len this shift] xi True
    show ?thesis by simp
  next
    case False
    have "\<forall>j<Suc i. ys ! j \<le> best_value"
      using Cons.prems(4) False xi by (metis less_Suc_eq not_less)
    from Cons.IH[of best "Suc i" best_value, OF _ Cons.prems(2) len this shift] Cons.prems(1) False
    show ?thesis by simp
  qed
qed

lemma argmax_props:
  assumes "xs \<noteq> []"
  shows "argmax xs < length xs \<and> (\<forall>j<length xs. xs ! j \<le> xs ! argmax xs)"
proof -
  obtain x rest where xs: "xs = x # rest" using assms by (cases xs) auto
  have "argmax_loop rest 1 0 x < length xs
       \<and> (\<forall>j<length xs. xs ! j \<le> xs ! argmax_loop rest 1 0 x)"
    by (rule argmax_loop_props) (simp_all add: xs)
  then show ?thesis by (simp add: argmax_def xs)
qed

lemma members_empty_iff:
  "filter (\<lambda>i. ls ! i = c) [0..<length ls] = [] \<longleftrightarrow> c \<notin> set ls"
  by (auto simp: filter_empty_conv in_set_conv_nth)

lemma best_member:
  fixes sim :: "nat \<Rightarrow> rat"
  assumes "indices = filter (\<lambda>i. ls ! i = c) [0..<length ls]" and "indices \<noteq> []"
    and "distances = map sim indices"
  shows "indices ! argmax distances < length ls
       \<and> ls ! (indices ! argmax distances) = c
       \<and> (\<forall>j<length ls. ls ! j = c \<longrightarrow> sim j \<le> sim (indices ! argmax distances))
       \<and> distances ! argmax distances = sim (indices ! argmax distances)"
proof -
  have ne: "distances \<noteq> []" using assms by simp
  note am = argmax_props[OF ne]
  have a: "argmax distances < length indices" using am assms(3) by simp
  then have mem: "indices ! argmax distances \<in> set indices" by simp
  then have b: "indices ! argmax distances < length ls" "ls ! (indices ! argmax distances) = c"
    unfolding assms(1) by auto
  have d: "distances ! argmax distances = sim (indices ! argmax distances)"
    using a assms(3) by simp
  have m: "\<forall>j<length ls. ls ! j = c \<longrightarrow> sim j \<le> sim (indices ! argmax distances)"
  proof (intro allI impI)
    fix j assume "j < length ls" and "ls ! j = c"
    then have "j \<in> set indices" unfolding assms(1) by simp
    then obtain k where k: "k < length indices" "indices ! k = j"
      by (auto simp: in_set_conv_nth)
    have "length distances = length indices" using assms(3) by simp
    with k(1) have "k < length distances" by simp
    with am have "distances ! k \<le> distances ! argmax distances" by blast
    moreover have "distances ! k = sim j" using k assms(3) by simp
    ultimately show "sim j \<le> sim (indices ! argmax distances)" using d by simp
  qed
  from b m d show ?thesis by blast
qed

lemma select_loop_step_empty:
  "c \<notin> set (labels fm) \<Longrightarrow>
   select_loop (c # rest) fm ids examples = select_loop rest fm ids examples"
  by (simp add: members_empty_iff)

lemma select_loop_step_member:
  assumes "c \<in> set (labels fm)" and "length (labels fm) \<le> length ids"
    and "\<forall>i<length (labels fm). ids ! i \<noteq> None"
  shows "\<exists>ex. representative fm ids c ex
      \<and> select_loop (c # rest) fm ids examples = select_loop rest fm ids (examples @ [ex])"
proof -
  define indices where "indices = filter (\<lambda>i. labels fm ! i = c) [0..<length (labels fm)]"
  define distances where "distances = map (\<lambda>i. centroid_similarity fm i c) indices"
  define best_idx where "best_idx = indices ! argmax distances"
  have ne: "indices \<noteq> []" using assms(1) unfolding indices_def by (simp add: members_empty_iff)
  from best_member[OF indices_def ne distances_def]
  have b: "best_idx < length (labels fm)" "labels fm ! best_idx = c"
    "\<forall>j<length (labels fm). labels fm ! j = c \<longrightarrow>
       centroid_similarity fm j c \<le> centroid_similarity fm best_idx c"
    "distances ! argmax distances = centroid_similarity fm best_idx c"
    unfolding best_idx_def by blast+
  have inrange: "\<not> best_idx \<ge> length ids" using b(1) assms(2) by simp
  obtain aid where aid: "ids ! best_idx = Some aid" using b(1) assms(3) by auto
  define ex where "ex = \<lparr>article_id = aid, cluster_id = int c,
      distance_to_centroid = 1 - distances ! argmax distances\<rparr>"
  have "representative fm ids c ex"
    unfolding representative_def using b aid by (auto simp: ex_def)
  moreover have "select_loop (c # rest) fm ids examples = select_loop rest fm ids (examples @ [ex])"
    using ne inrange aid
    by (simp add: Let_def indices_def[symmetric] distances_def[symmetric] best_idx_def[symmetric]
        ex_def)
  ultimately show ?thesis by blast
qed

lemma select_loop_ok:
  assumes "length (labels fm) \<le> length ids" and "\<forall>i<length (labels fm). ids ! i \<noteq> None"
  shows "\<exists>new. select_loop cs fm ids examples = Inr (examples @ new)
      \<and> list_all2 (representative fm ids) (nonempty_clusters fm cs) new"
proof (induction cs arbitrary: examples)
  case Nil
  show ?case by (simp add: nonempty_clusters_def)
next
  case (Cons c rest)
  show ?case
  proof (cases "c \<in> set (labels fm)")
    case False
    then show ?thesis
      using Cons.IH[of examples] select_loop_step_empty[of c fm rest ids examples]
      by (simp add: nonempty_clusters_def)
  next
    case True
    obtain ex where ex: "representative fm ids c ex"
      "select_loop (c # rest) fm ids examples = select_loop rest fm ids (examples @ [ex])"
      using select_loop_step_member[OF True assms] by blast
    obtain new where new: "select_loop rest fm ids (examples @ [ex]) = Inr ((examples @ [ex]) @ new)"
      "list_all2 (representative fm ids) (nonempty_clusters fm rest) new"
      using Cons.IH[of "examples @ [ex]"] by blast
    have "select_loop (c # rest) fm ids examples = Inr (examples @ (ex # new))"
      using ex(2) new(1) by simp
    moreover have "list_all2 (representative fm ids) (nonempty_clusters fm (c # rest)) (ex # new)"
      using True ex(1) new(2) by (simp add: nonempty_clusters_def)
    ultimately show ?thesis by blast
  qed
qed

text \<open>
  Claim C7. \<open>build_clusters\<close> asks for \<open>min (n_clusters stg) (corpus size)\<close> clusters. When the
  clustering succeeds, with one label for every article of the store (every article of
  the store has an id), the result has exactly one example for every cluster that has a
  member and none for a cluster without members, in the order of the cluster numbers. The
  example of a cluster names a member whose similarity to the centroid of the cluster is
  the largest among the members, and its distance is 1 minus that similarity.
\<close>

theorem build_clusters_representatives:
  assumes "store_articles store \<noteq> []"
    and "fit (map (\<lambda>a. title a @ '' '' @ content a) (store_articles store))
           (min (n_clusters stg) (int (length (store_articles store)))) = Inr fm"
    and "length (labels fm) = length (store_articles store)"
    and "\<forall>a \<in> set (store_articles store). id' a \<noteq> None"
  shows "\<exists>examples.
      build_clusters fit stg store
      = Inr (examples, save_examples store examples,
             \<lparr>model_article_ids = map id' (store_articles store), model_fitted = fm\<rparr>)
      \<and> list_all2 (representative fm (map id' (store_articles store)))
           (nonempty_clusters fm
              [0..<nat (min (n_clusters stg) (int (length (store_articles store))))])
           examples"
proof -
  let ?ids = "map id' (store_articles store)"
  let ?k = "min (n_clusters stg) (int (length (store_articles store)))"
  have len: "length (labels fm) \<le> length ?ids" using assms(3) by simp
  have some: "\<forall>i<length (labels fm). ?ids ! i \<noteq> None"
    using assms(3,4) by simp
  obtain examples where ex: "select_loop [0..<nat ?k] fm ?ids [] = Inr ([] @ examples)"
    "list_all2 (representative fm ?ids) (nonempty_clusters fm [0..<nat ?k]) examples"
    using select_loop_ok[OF len some, of "[0..<nat ?k]" "[]"] by blast
  have "build_clusters fit stg store
      = Inr (examples, save_examples store examples,
             \<lparr>model_article_ids = ?ids, model_fitted = fm\<rparr>)"
    using assms(1,2) ex(1) by (simp add: build_clusters_def Let_def)
  with ex(2) show ?thesis by blast
qed

theorem build_clusters_representatives_witness:
  "\<exists>examples.
      build_clusters example_clusterer example_settings example_store
      = Inr (examples, save_examples example_store examples,
             \<lparr>model_article_ids = [Some 1, Some 2, Some 3], model_fitted = example_fitted\<rparr>)
      \<and> list_all2 (representative example_fitted [Some 1, Some 2, Some 3]) [0, 1] examples"
proof -
  have a: "store_articles example_store \<noteq> []"
    by (simp add: example_store_def)
  have b: "example_clusterer
        (map (\<lambda>a. title a @ '' '' @ content a) (store_articles example_store))
        (min (n_clusters example_settings) (int (length (store_articles example_store))))
      = Inr example_fitted"
    by (simp add: example_clusterer_def)
  have c: "length (labels example_fitted) = length (store_articles example_store)"
    by (simp add: example_fitted_def example_store_def)
  have d: "\<forall>a \<in> set (store_articles example_store). id' a \<noteq> None"
    by (simp add: example_store_def example_article_def)
  have k: "nat (min (n_clusters example_settings) (int (length (store_articles example_store)))) = 3"
    by (simp add: example_settings_def example_store_def)
  have ne: "nonempty_clusters example_fitted [0..<3] = [0, 1]"
    by (simp add: nonempty_clusters_def example_fitted_def upt_4)
  have ids: "map id' (store_articles example_store) = [Some 1, Some 2, Some 3]"
    by (simp add: example_store_def example_article_def)
  from build_clusters_representatives[of example_store example_clusterer example_settings
      example_fitted] a b c d
  show ?thesis
    unfolding k ne ids by blast
qed

text \<open>
  Claim C8 on the code. Two examples, articles 2 and 3; the query is more similar to
  article 3 (9/10) than to article 2 (1/10). \<open>find_similar\<close> ranks them, but the store query
  it ends with orders the rows by id, so article 2 comes first.
\<close>

theorem find_similar_order_by_id:
  "find_similar (Some example_model) example_store_analyzed ''query'' 2
     = Inr [example_article 2 ''b'' ''y'' None [], example_article 3 ''c'' ''z'' None []]
   \<and> query_similarity (model_fitted example_model) ''query'' 1
       < query_similarity (model_fitted example_model) ''query'' 2
   \<and> model_article_ids example_model ! 1 = Some 2
   \<and> model_article_ids example_model ! 2 = Some 3"
  by (simp add: find_similar_def example_model_def example_store_analyzed_def save_examples_def
      example_store_def get_example_article_ids_def get_articles_by_ids_def example_fitted_def
      example_article_def argsort_def py_slice_from_def upt_4 Let_def)

text \<open>
  For the count 0 the slice \<open>xs[-0:]\<close> is the whole list: both examples are returned.
\<close>

theorem find_similar_zero_count:
  "find_similar (Some example_model) example_store_analyzed ''query'' 0
     = Inr [example_article 2 ''b'' ''y'' None [], example_article 3 ''c'' ''z'' None []]"
  by (simp add: find_similar_def example_model_def example_store_analyzed_def save_examples_def
      example_store_def get_example_article_ids_def get_articles_by_ids_def example_fitted_def
      example_article_def argsort_def py_slice_from_def upt_4 Let_def)

section \<open>Properties of the JSON extraction\<close>



































end
